theory Spec2Isabelle
  imports Main
begin

section \<open>The host-graph store of the GP 2 compiler (Compiler/graph.c)\<close>

text \<open>
  The theory embeds the graph store of \<^verbatim>\<open>graph.c\<close>: labels and their classes, nodes and
  edges held in pointer arrays with free-slot stacks, the two label-class tables, the
  root-node list, and the copy/restore stack of graphs.

  The C code works on pointers. Nodes and edges therefore live in an explicit store, a map
  from addresses to records; a \<^verbatim>\<open>Node *\<close> or \<^verbatim>\<open>Edge *\<close> is an optional address, \<open>None\<close>
  being \<^verbatim>\<open>NULL\<close>. Dereferencing \<^verbatim>\<open>NULL\<close> or a freed address and indexing an array outside the
  block that \<^verbatim>\<open>calloc\<close> returned are undefined behaviour in C; the model stops there with a
  \<open>fault\<close>. Messages written with \<^verbatim>\<open>print_to_log\<close> are collected in the log of the world.
  \<^verbatim>\<open>malloc\<close> is assumed to succeed (the code exits otherwise) and hands out a fresh address.
  C \<^verbatim>\<open>int\<close>s are modelled as unbounded integers: every counter of the store is bounded by
  the size of an array.
\<close>

subsection \<open>Labels\<close>

datatype MarkType = NONE | RED | GREEN | BLUE | GREY | DASHED | ANY

datatype LabelClass =
  EMPTY_L | INT_L | STRING_L | ATOMIC_VAR_L | LIST2_L | LIST3_L | LIST4_L | LIST5_L | LISTVAR_L

text \<open>
  A \<^verbatim>\<open>ListElement\<close> is a tagged union; its declaration is in a header that is not among the
  sources, so the constructors and their arguments are read off \<^verbatim>\<open>printListElement\<close> and
  \<^verbatim>\<open>freeListElement\<close>. A sub-expression is a pointer and may be \<^verbatim>\<open>NULL\<close>.
\<close>

datatype ListElement =
    VARIABLE string
  | INTEGER_CONSTANT int
  | CHARACTER_CONSTANT string
  | STRING_CONSTANT string
  | INDEGREE string
  | OUTDEGREE string
  | LIST_LENGTH "ListElement option list"
  | STRING_LENGTH "ListElement option"
  | NEG "ListElement option"
  | ADD "ListElement option" "ListElement option"
  | SUBTRACT "ListElement option" "ListElement option"
  | MULTIPLY "ListElement option" "ListElement option"
  | DIVIDE "ListElement option" "ListElement option"
  | CONCAT "ListElement option" "ListElement option"

text \<open>
  \<open>list_l\<close> is the field \<^verbatim>\<open>list\<close>, a \<^verbatim>\<open>GList\<close> of atom pointers; the empty list is \<^verbatim>\<open>NULL\<close>.
  \<open>list_length\<close> and \<open>has_list_variable\<close> are fields of their own, as in the struct.
\<close>

record Label =
  mark :: MarkType
  list_l :: "ListElement option list"
  list_length :: int
  has_list_variable :: bool

definition blank_label :: Label where
  "blank_label = \<lparr>mark = NONE, list_l = [], list_length = 0, has_list_variable = False\<rparr>"

text \<open>
  A \<^verbatim>\<open>Label *\<close> is \<^verbatim>\<open>NULL\<close>, the address of the global \<^verbatim>\<open>blank_label\<close>, or a label of its
  own on the heap. The code compares label pointers only with \<^verbatim>\<open>&blank_label\<close>, and each
  heap label has a single owner, so a heap label is carried by value.
\<close>

datatype LabelPtr = NullLabel | BlankLabel | HeapLabel Label

subsection \<open>Nodes, edges, graphs and the world\<close>

type_synonym addr = nat

text \<open>
  Fields that \<^verbatim>\<open>Node\<close> and \<^verbatim>\<open>Edge\<close> share in C carry the suffix \<open>_n\<close> or \<open>_e\<close> here.
  An array is a list whose length is the number of elements allocated for it; a stack is a
  list with its top at the head.
\<close>

record Node =
  index_n :: int
  root_n :: bool
  label_class_n :: LabelClass
  label_n :: LabelPtr
  indegree :: int
  outdegree :: int
  out_edges :: "addr option list"
  in_edges :: "addr option list"
  free_out_edge_slots :: "int list"
  free_in_edge_slots :: "int list"
  next_out_edge_index :: int
  next_in_edge_index :: int

record Edge =
  index_e :: int
  bidirectional :: bool
  label_class_e :: LabelClass
  label_e :: LabelPtr
  source :: "addr option"
  target :: "addr option"

text \<open>
  The two hash tables map a label class to a \<^verbatim>\<open>GSList\<close> of pointers. A key can be absent
  (\<open>None\<close>) or carry a list, possibly the empty one (\<^verbatim>\<open>NULL\<close>).
\<close>

record Graph =
  nodes :: "addr option list"
  edges :: "addr option list"
  free_node_slots :: "int list"
  free_edge_slots :: "int list"
  next_node_index :: int
  next_edge_index :: int
  number_of_nodes :: int
  number_of_edges :: int
  nodes_by_label :: "LabelClass \<Rightarrow> addr list option"
  edges_by_label :: "LabelClass \<Rightarrow> addr list option"
  root_nodes :: "addr list"

text \<open>The messages of \<^verbatim>\<open>print_to_log\<close> that the modelled functions write.\<close>

datatype diag =
    GetLabelClass_exceeds_maximum
  | GetLabelClass_unexpected_type
  | RemoveNode_incident_edges int
  | CopyListElement_unexpected_type
  | GetNode_index_exceeds
  | GetEdge_index_exceeds
  | GetOutEdge_index_exceeds
  | GetInEdge_index_exceeds

datatype fault = NullDereference | InvalidPointer | OutOfBounds

text \<open>
  The constants \<^verbatim>\<open>MAX_NODES\<close>, \<^verbatim>\<open>MAX_EDGES\<close> and \<^verbatim>\<open>MAX_INCIDENT_EDGES\<close> are defined in a
  header that is not among the sources; they are parameters of the world.
  \<open>uninit_label\<close> is what a block that \<^verbatim>\<open>malloc\<close> returns for a \<^verbatim>\<open>Label\<close> holds before
  anything is written to it: C leaves it indeterminate.
\<close>

record world =
  node_heap :: "addr \<Rightarrow> Node option"
  edge_heap :: "addr \<Rightarrow> Edge option"
  next_addr :: addr
  graph_stack :: "Graph list"
  log_w :: "diag list"
  MAX_NODES :: nat
  MAX_EDGES :: nat
  MAX_INCIDENT_EDGES :: nat
  uninit_label :: Label

subsection \<open>Programs over the world\<close>

type_synonym 'a prog = "world \<Rightarrow> fault + ('a \<times> world)"

definition ret :: "'a \<Rightarrow> 'a prog" where
  "ret x = (\<lambda>w. Inr (x, w))"

definition bnd :: "'a prog \<Rightarrow> ('a \<Rightarrow> 'b prog) \<Rightarrow> 'b prog" where
  "bnd m f = (\<lambda>w. case m w of Inl e \<Rightarrow> Inl e | Inr (x, w') \<Rightarrow> f x w')"

definition crash :: "fault \<Rightarrow> 'a prog" where
  "crash e = (\<lambda>w. Inl e)"

definition print_to_log :: "diag \<Rightarrow> unit prog" where
  "print_to_log d = (\<lambda>w. Inr ((), w\<lparr>log_w := log_w w @ [d]\<rparr>))"

definition array_get :: "'a list \<Rightarrow> int \<Rightarrow> 'a prog" where
  "array_get xs i =
     (if 0 \<le> i \<and> i < int (length xs) then ret (xs ! nat i) else crash OutOfBounds)"

definition array_set :: "'a list \<Rightarrow> int \<Rightarrow> 'a \<Rightarrow> 'a list prog" where
  "array_set xs i v =
     (if 0 \<le> i \<and> i < int (length xs) then ret (xs[nat i := v]) else crash OutOfBounds)"

definition read_node :: "addr option \<Rightarrow> Node prog" where
  "read_node p = (\<lambda>w. case p of None \<Rightarrow> Inl NullDereference
     | Some a \<Rightarrow> (case node_heap w a of None \<Rightarrow> Inl InvalidPointer | Some n \<Rightarrow> Inr (n, w)))"

definition read_edge :: "addr option \<Rightarrow> Edge prog" where
  "read_edge p = (\<lambda>w. case p of None \<Rightarrow> Inl NullDereference
     | Some a \<Rightarrow> (case edge_heap w a of None \<Rightarrow> Inl InvalidPointer | Some e \<Rightarrow> Inr (e, w)))"

definition write_node :: "addr \<Rightarrow> Node \<Rightarrow> unit prog" where
  "write_node a n = (\<lambda>w. Inr ((), w\<lparr>node_heap := (node_heap w)(a := Some n)\<rparr>))"

definition write_edge :: "addr \<Rightarrow> Edge \<Rightarrow> unit prog" where
  "write_edge a e = (\<lambda>w. Inr ((), w\<lparr>edge_heap := (edge_heap w)(a := Some e)\<rparr>))"

definition malloc_node :: "Node \<Rightarrow> addr prog" where
  "malloc_node n = (\<lambda>w. Inr (next_addr w,
     w\<lparr>node_heap := (node_heap w)(next_addr w := Some n), next_addr := next_addr w + 1\<rparr>))"

definition malloc_edge :: "Edge \<Rightarrow> addr prog" where
  "malloc_edge e = (\<lambda>w. Inr (next_addr w,
     w\<lparr>edge_heap := (edge_heap w)(next_addr w := Some e), next_addr := next_addr w + 1\<rparr>))"

definition free_node_mem :: "addr \<Rightarrow> unit prog" where
  "free_node_mem a = (\<lambda>w. Inr ((), w\<lparr>node_heap := (node_heap w)(a := None)\<rparr>))"

definition free_edge_mem :: "addr \<Rightarrow> unit prog" where
  "free_edge_mem a = (\<lambda>w. Inr ((), w\<lparr>edge_heap := (edge_heap w)(a := None)\<rparr>))"

definition store_node :: "addr option \<Rightarrow> Node \<Rightarrow> unit prog" where
  "store_node p n = (case p of None \<Rightarrow> crash NullDereference | Some a \<Rightarrow> write_node a n)"

text \<open>Dereferencing a pointer that is kept for later comparisons: the address and the record.\<close>

definition deref_node :: "addr option \<Rightarrow> (addr \<times> Node) prog" where
  "deref_node p = (case p of None \<Rightarrow> crash NullDereference
     | Some a \<Rightarrow> bnd (read_node (Some a)) (\<lambda>n. ret (a, n)))"

definition deref_edge :: "addr option \<Rightarrow> (addr \<times> Edge) prog" where
  "deref_edge p = (case p of None \<Rightarrow> crash NullDereference
     | Some a \<Rightarrow> bnd (read_edge (Some a)) (\<lambda>e. ret (a, e)))"

definition deref_label :: "LabelPtr \<Rightarrow> Label prog" where
  "deref_label p = (case p of NullLabel \<Rightarrow> crash NullDereference
     | BlankLabel \<Rightarrow> ret blank_label | HeapLabel l \<Rightarrow> ret l)"

text \<open>\<^verbatim>\<open>g_hash_table_lookup\<close>: the list stored under the key, \<^verbatim>\<open>NULL\<close> when the key is absent.\<close>

definition g_hash_table_lookup :: "(LabelClass \<Rightarrow> addr list option) \<Rightarrow> LabelClass \<Rightarrow> addr list" where
  "g_hash_table_lookup t k = (case t k of None \<Rightarrow> [] | Some l \<Rightarrow> l)"

subsection \<open>Label classes (lines 421 to 471)\<close>

text \<open>
  The \<^verbatim>\<open>switch\<close> on the length has no \<^verbatim>\<open>return\<close> in its \<^verbatim>\<open>default\<close> case: a length above 5
  writes the message and control goes on to the classification by the first atom.
\<close>

definition getLabelClass :: "LabelPtr \<Rightarrow> LabelClass prog" where
  "getLabelClass label =
     bnd (deref_label label) (\<lambda>l.
     let length = list_length l in
     if has_list_variable l then ret LISTVAR_L
     else if list_l l = [] then ret EMPTY_L
     else if length > 1 \<and> length = 2 then ret LIST2_L
     else if length > 1 \<and> length = 3 then ret LIST3_L
     else if length > 1 \<and> length = 4 then ret LIST4_L
     else if length > 1 \<and> length = 5 then ret LIST5_L
     else
       bnd (if length > 1 then print_to_log GetLabelClass_exceeds_maximum else ret ()) (\<lambda>_.
       case hd (list_l l) of
         None \<Rightarrow> crash NullDereference
       | Some atom \<Rightarrow>
           (case atom of
              VARIABLE _ \<Rightarrow> ret ATOMIC_VAR_L
            | INTEGER_CONSTANT _ \<Rightarrow> ret INT_L
            | NEG _ \<Rightarrow> ret INT_L
            | CHARACTER_CONSTANT _ \<Rightarrow> ret STRING_L
            | STRING_CONSTANT _ \<Rightarrow> ret STRING_L
            | CONCAT _ _ \<Rightarrow> ret STRING_L
            | _ \<Rightarrow> bnd (print_to_log GetLabelClass_unexpected_type) (\<lambda>_. ret LISTVAR_L))))"

subsection \<open>Copying labels (lines 1141 to 1238)\<close>

text \<open>
  \<^verbatim>\<open>copyListElement\<close> copies variables, constants, negations and concatenations; for every
  other atom it writes a message and returns \<^verbatim>\<open>NULL\<close>. The messages of the recursive calls
  are collected with the result.
\<close>

fun copyListElement :: "ListElement \<Rightarrow> fault + (diag list \<times> ListElement option)" where
  "copyListElement (VARIABLE name) = Inr ([], Some (VARIABLE name))"
| "copyListElement (INTEGER_CONSTANT number) = Inr ([], Some (INTEGER_CONSTANT number))"
| "copyListElement (CHARACTER_CONSTANT s) = Inr ([], Some (CHARACTER_CONSTANT s))"
| "copyListElement (STRING_CONSTANT s) = Inr ([], Some (STRING_CONSTANT s))"
| "copyListElement (NEG exp) =
     (case exp of None \<Rightarrow> Inl NullDereference
      | Some e \<Rightarrow> (case copyListElement e of Inl f \<Rightarrow> Inl f
                   | Inr (ds, c) \<Rightarrow> Inr (ds, Some (NEG c))))"
| "copyListElement (CONCAT left_exp right_exp) =
     (case left_exp of None \<Rightarrow> Inl NullDereference
      | Some l \<Rightarrow> (case copyListElement l of Inl f \<Rightarrow> Inl f
          | Inr (ds, cl) \<Rightarrow>
             (case right_exp of None \<Rightarrow> Inl NullDereference
              | Some r \<Rightarrow> (case copyListElement r of Inl f \<Rightarrow> Inl f
                  | Inr (ds', cr) \<Rightarrow> Inr (ds @ ds', Some (CONCAT cl cr))))))"
| "copyListElement _ = Inr ([CopyListElement_unexpected_type], None)"

definition copyListElement_p :: "ListElement option \<Rightarrow> ListElement option prog" where
  "copyListElement_p atom = (\<lambda>w. case atom of None \<Rightarrow> Inl NullDereference
     | Some a \<Rightarrow> (case copyListElement a of Inl f \<Rightarrow> Inl f
                  | Inr (ds, c) \<Rightarrow> Inr (c, w\<lparr>log_w := log_w w @ ds\<rparr>)))"

text \<open>
  The loop of \<^verbatim>\<open>copyLabel\<close> walks the list from its last element to its first and prepends
  each copy, so the copy has the order of the original.
\<close>

fun copy_atoms_from_last :: "ListElement option list \<Rightarrow> ListElement option list
    \<Rightarrow> ListElement option list prog" where
  "copy_atoms_from_last [] list_copy = ret list_copy"
| "copy_atoms_from_last (atom # earlier) list_copy =
     bnd (copyListElement_p atom) (\<lambda>atom_copy.
     copy_atoms_from_last earlier (atom_copy # list_copy))"

text \<open>
  The four assignments to the fields of the copy are inside the \<^verbatim>\<open>else\<close> branch: when the
  list of a heap label is \<^verbatim>\<open>NULL\<close>, only the \<^verbatim>\<open>list\<close> field of the fresh block is written.
\<close>

definition copyLabel :: "LabelPtr \<Rightarrow> LabelPtr prog" where
  "copyLabel label =
     (if label = BlankLabel then ret BlankLabel
      else (\<lambda>w.
        (bnd (deref_label label) (\<lambda>l.
         let label_copy = uninit_label w in
         if list_l l = [] then ret (HeapLabel (label_copy\<lparr>list_l := []\<rparr>))
         else
           bnd (copy_atoms_from_last (rev (list_l l)) []) (\<lambda>list_copy.
           ret (HeapLabel (label_copy\<lparr>mark := mark l, list_l := list_copy,
                  list_length := list_length l,
                  has_list_variable := has_list_variable l\<rparr>))))) w))"

subsection \<open>Stacks\<close>

text \<open>
  Modelled from the spec: the stack module (\<^verbatim>\<open>newStack\<close>, \<^verbatim>\<open>push\<close>, \<^verbatim>\<open>pop\<close>) is not among
  the sources. The spec calls it a LIFO stack, and the code reads \<^verbatim>\<open>pop\<close> as returning
  \<^verbatim>\<open>NULL\<close> on the empty stack: \<open>pop\<close> gives the top and the rest, \<open>push\<close> puts a new top.
\<close>

definition pop :: "'a list \<Rightarrow> 'a option \<times> 'a list" where
  "pop st = (case st of [] \<Rightarrow> (None, []) | x # rest \<Rightarrow> (Some x, rest))"

definition push :: "'a list \<Rightarrow> 'a \<Rightarrow> 'a list" where
  "push st x = x # st"

subsection \<open>Construction (lines 14 to 552)\<close>

definition newGraph :: "Graph prog" where
  "newGraph = (\<lambda>w. Inr
     (\<lparr>nodes = replicate (MAX_NODES w) None,
       edges = replicate (MAX_EDGES w) None,
       free_node_slots = [], free_edge_slots = [],
       next_node_index = 0, next_edge_index = 0,
       number_of_nodes = 0, number_of_edges = 0,
       nodes_by_label = (\<lambda>_. None), edges_by_label = (\<lambda>_. None),
       root_nodes = []\<rparr>, w))"

definition newNode :: "bool \<Rightarrow> LabelPtr \<Rightarrow> addr prog" where
  "newNode root label =
     bnd (if label = NullLabel then ret (EMPTY_L, BlankLabel)
          else bnd (getLabelClass label) (\<lambda>c. ret (c, label))) (\<lambda>(c, l). (\<lambda>w.
     malloc_node
       \<lparr>index_n = 0, root_n = root, label_class_n = c, label_n = l,
        indegree = 0, outdegree = 0,
        out_edges = replicate (MAX_INCIDENT_EDGES w) None,
        in_edges = replicate (MAX_INCIDENT_EDGES w) None,
        free_out_edge_slots = [], free_in_edge_slots = [],
        next_out_edge_index = 0, next_in_edge_index = 0\<rparr> w))"

definition newEdge :: "bool \<Rightarrow> LabelPtr \<Rightarrow> addr option \<Rightarrow> addr option \<Rightarrow> addr prog" where
  "newEdge bidir label src tgt =
     bnd (if label = NullLabel then ret (EMPTY_L, BlankLabel)
          else bnd (getLabelClass label) (\<lambda>c. ret (c, label))) (\<lambda>(c, l).
     malloc_edge
       \<lparr>index_e = 0, bidirectional = bidir, label_class_e = c, label_e = l,
        source = src, target = tgt\<rparr>)"

subsection \<open>Queries (lines 1240 to 1335)\<close>

definition getNode :: "Graph \<Rightarrow> int \<Rightarrow> addr option prog" where
  "getNode graph index =
     (if index > next_node_index graph
      then bnd (print_to_log GetNode_index_exceeds) (\<lambda>_. ret None)
      else array_get (nodes graph) index)"

definition getEdge :: "Graph \<Rightarrow> int \<Rightarrow> addr option prog" where
  "getEdge graph index =
     (if index > next_edge_index graph
      then bnd (print_to_log GetEdge_index_exceeds) (\<lambda>_. ret None)
      else array_get (edges graph) index)"

definition getRootNodes :: "Graph \<Rightarrow> addr list" where
  "getRootNodes graph = root_nodes graph"

definition getNodesByLabel :: "Graph \<Rightarrow> LabelClass \<Rightarrow> addr list" where
  "getNodesByLabel graph label_class = g_hash_table_lookup (nodes_by_label graph) label_class"

definition getEdgesByLabel :: "Graph \<Rightarrow> LabelClass \<Rightarrow> addr list" where
  "getEdgesByLabel graph label_class = g_hash_table_lookup (edges_by_label graph) label_class"

definition getOutEdge :: "addr option \<Rightarrow> int \<Rightarrow> addr option prog" where
  "getOutEdge node index =
     bnd (read_node node) (\<lambda>n.
     if index > next_out_edge_index n
     then bnd (print_to_log GetOutEdge_index_exceeds) (\<lambda>_. ret None)
     else array_get (out_edges n) index)"

definition getInEdge :: "addr option \<Rightarrow> int \<Rightarrow> addr option prog" where
  "getInEdge node index =
     bnd (read_node node) (\<lambda>n.
     if index > next_in_edge_index n
     then bnd (print_to_log GetInEdge_index_exceeds) (\<lambda>_. ret None)
     else array_get (in_edges n) index)"

definition getSource :: "addr option \<Rightarrow> addr option prog" where
  "getSource edge = bnd (read_edge edge) (\<lambda>e. ret (source e))"

definition getTarget :: "addr option \<Rightarrow> addr option prog" where
  "getTarget edge = bnd (read_edge edge) (\<lambda>e. ret (target e))"

definition getNodeLabel :: "addr option \<Rightarrow> LabelPtr prog" where
  "getNodeLabel node = bnd (read_node node) (\<lambda>n. ret (label_n n))"

definition getEdgeLabel :: "addr option \<Rightarrow> LabelPtr prog" where
  "getEdgeLabel edge = bnd (read_edge edge) (\<lambda>e. ret (label_e e))"

definition getIndegree :: "addr option \<Rightarrow> int prog" where
  "getIndegree node = bnd (read_node node) (\<lambda>n. ret (indegree n))"

definition getOutdegree :: "addr option \<Rightarrow> int prog" where
  "getOutdegree node = bnd (read_node node) (\<lambda>n. ret (outdegree n))"

subsection \<open>Adding nodes and edges (lines 555 to 647)\<close>

definition addNode :: "Graph \<Rightarrow> addr \<Rightarrow> Graph prog" where
  "addNode graph node =
     bnd (read_node (Some node)) (\<lambda>n.
     bnd (case pop (free_node_slots graph) of
            (None, _) \<Rightarrow>
              bnd (array_set (nodes graph) (next_node_index graph) (Some node)) (\<lambda>ns.
              bnd (write_node node (n\<lparr>index_n := next_node_index graph\<rparr>)) (\<lambda>_.
              ret (graph\<lparr>nodes := ns, next_node_index := next_node_index graph + 1\<rparr>)))
          | (Some free_slot, st) \<Rightarrow>
              bnd (array_set (nodes graph) free_slot (Some node)) (\<lambda>ns.
              bnd (write_node node (n\<lparr>index_n := free_slot\<rparr>)) (\<lambda>_.
              ret (graph\<lparr>nodes := ns, free_node_slots := st\<rparr>)))) (\<lambda>graph.
     let label_key = label_class_n n;
         node_list = g_hash_table_lookup (nodes_by_label graph) label_key;
         graph = graph\<lparr>nodes_by_label := (nodes_by_label graph)(label_key := Some (node # node_list))\<rparr>;
         graph = (if root_n n then graph\<lparr>root_nodes := node # root_nodes graph\<rparr> else graph)
     in ret (graph\<lparr>number_of_nodes := number_of_nodes graph + 1\<rparr>)))"

definition addEdge :: "Graph \<Rightarrow> addr \<Rightarrow> Graph prog" where
  "addEdge graph edge =
     bnd (read_edge (Some edge)) (\<lambda>e.
     bnd (case pop (free_edge_slots graph) of
            (None, _) \<Rightarrow>
              bnd (array_set (edges graph) (next_edge_index graph) (Some edge)) (\<lambda>es.
              bnd (write_edge edge (e\<lparr>index_e := next_edge_index graph\<rparr>)) (\<lambda>_.
              ret (graph\<lparr>edges := es, next_edge_index := next_edge_index graph + 1\<rparr>)))
          | (Some free_slot, st) \<Rightarrow>
              bnd (array_set (edges graph) free_slot (Some edge)) (\<lambda>es.
              bnd (write_edge edge (e\<lparr>index_e := free_slot\<rparr>)) (\<lambda>_.
              ret (graph\<lparr>edges := es, free_edge_slots := st\<rparr>)))) (\<lambda>graph.
     bnd (read_node (source e)) (\<lambda>s.
     bnd (case pop (free_out_edge_slots s) of
            (None, _) \<Rightarrow>
              bnd (array_set (out_edges s) (next_out_edge_index s) (Some edge)) (\<lambda>oe.
              ret (s\<lparr>out_edges := oe, next_out_edge_index := next_out_edge_index s + 1\<rparr>))
          | (Some free_slot, st) \<Rightarrow>
              bnd (array_set (out_edges s) free_slot (Some edge)) (\<lambda>oe.
              ret (s\<lparr>out_edges := oe, free_out_edge_slots := st\<rparr>))) (\<lambda>s.
     bnd (store_node (source e) (s\<lparr>outdegree := outdegree s + 1\<rparr>)) (\<lambda>_.
     bnd (read_node (target e)) (\<lambda>t.
     bnd (case pop (free_in_edge_slots t) of
            (None, _) \<Rightarrow>
              bnd (array_set (in_edges t) (next_in_edge_index t) (Some edge)) (\<lambda>ie.
              ret (t\<lparr>in_edges := ie, next_in_edge_index := next_in_edge_index t + 1\<rparr>))
          | (Some free_slot, st) \<Rightarrow>
              bnd (array_set (in_edges t) free_slot (Some edge)) (\<lambda>ie.
              ret (t\<lparr>in_edges := ie, free_in_edge_slots := st\<rparr>))) (\<lambda>t.
     bnd (store_node (target e) (t\<lparr>indegree := indegree t + 1\<rparr>)) (\<lambda>_.
     let label_key = label_class_e e;
         edge_list = g_hash_table_lookup (edges_by_label graph) label_key;
         graph = graph\<lparr>edges_by_label := (edges_by_label graph)(label_key := Some (edge # edge_list))\<rparr>
     in ret (graph\<lparr>number_of_edges := number_of_edges graph + 1\<rparr>)))))))))"

subsection \<open>Removing nodes and edges (lines 650 to 811)\<close>

definition removeNode :: "Graph \<Rightarrow> int \<Rightarrow> Graph prog" where
  "removeNode graph index =
     bnd (getNode graph index) (\<lambda>node_ptr.
     bnd (deref_node node_ptr) (\<lambda>(node, n).
     if indegree n > 0 \<or> outdegree n > 0
     then bnd (print_to_log (RemoveNode_incident_edges (index_n n))) (\<lambda>_. ret graph)
     else
       let label_key = label_class_n n;
           node_list = remove1 node (g_hash_table_lookup (nodes_by_label graph) label_key);
           graph = (if node_list = []
                    then graph\<lparr>nodes_by_label := (nodes_by_label graph)(label_key := None)\<rparr>
                    else graph\<lparr>nodes_by_label := (nodes_by_label graph)(label_key := Some node_list)\<rparr>);
           graph = (if root_n n then graph\<lparr>root_nodes := remove1 node (root_nodes graph)\<rparr>
                    else graph)
       in
       bnd (free_node_mem node) (\<lambda>_.
       bnd (array_set (nodes graph) index None) (\<lambda>ns.
       let graph = graph\<lparr>nodes := ns\<rparr>;
           graph = (if index = next_node_index graph - 1
                    then graph\<lparr>next_node_index := next_node_index graph - 1\<rparr>
                    else graph\<lparr>free_node_slots := push (free_node_slots graph) index\<rparr>)
       in ret (graph\<lparr>number_of_nodes := number_of_nodes graph - 1\<rparr>)))))"

text \<open>
  The two \<^verbatim>\<open>while\<close> loops of \<^verbatim>\<open>removeEdge\<close> look for the first position below the
  high-water mark of an incidence array that holds the edge, and stop there.
  \<open>find_incident\<close> is that search over the positions given.
\<close>

fun find_incident :: "addr option list \<Rightarrow> addr option \<Rightarrow> int list \<Rightarrow> int option prog" where
  "find_incident arr edge [] = ret None"
| "find_incident arr edge (counter # rest) =
     bnd (array_get arr counter) (\<lambda>x.
     if x = edge then ret (Some counter) else find_incident arr edge rest)"

definition upto_int :: "int \<Rightarrow> int list" where
  "upto_int n = map int [0 ..< nat n]"

definition removeEdge :: "Graph \<Rightarrow> int \<Rightarrow> Graph prog" where
  "removeEdge graph index =
     bnd (getEdge graph index) (\<lambda>edge_ptr.
     bnd (deref_edge edge_ptr) (\<lambda>(edge, e).
     bnd (read_node (source e)) (\<lambda>s.
     bnd (find_incident (out_edges s) (Some edge) (upto_int (next_out_edge_index s))) (\<lambda>found.
     bnd (case found of
            None \<Rightarrow> ret ()
          | Some counter \<Rightarrow>
              bnd (array_set (out_edges s) counter None) (\<lambda>oe.
              let s = s\<lparr>out_edges := oe, outdegree := outdegree s - 1\<rparr>;
                  s = (if counter = next_out_edge_index s - 1
                       then s\<lparr>next_out_edge_index := next_out_edge_index s - 1\<rparr>
                       else s\<lparr>free_out_edge_slots := push (free_out_edge_slots s) counter\<rparr>)
              in store_node (source e) s)) (\<lambda>_.
     bnd (read_node (target e)) (\<lambda>t.
     bnd (find_incident (in_edges t) (Some edge) (upto_int (next_in_edge_index t))) (\<lambda>found.
     bnd (case found of
            None \<Rightarrow> ret ()
          | Some counter \<Rightarrow>
              bnd (array_set (in_edges t) counter None) (\<lambda>ie.
              let t = t\<lparr>in_edges := ie, indegree := indegree t - 1\<rparr>;
                  t = (if counter = next_in_edge_index t - 1
                       then t\<lparr>next_in_edge_index := next_in_edge_index t - 1\<rparr>
                       else t\<lparr>free_in_edge_slots := push (free_in_edge_slots t) counter\<rparr>)
              in store_node (target e) t)) (\<lambda>_.
     let label_key = label_class_e e;
         edge_list = remove1 edge (g_hash_table_lookup (edges_by_label graph) label_key);
         graph = (if edge_list = []
                  then graph\<lparr>edges_by_label := (edges_by_label graph)(label_key := None)\<rparr>
                  else graph\<lparr>edges_by_label := (edges_by_label graph)(label_key := Some edge_list)\<rparr>)
     in
     bnd (free_edge_mem edge) (\<lambda>_.
     bnd (array_set (edges graph) index None) (\<lambda>es.
     let graph = graph\<lparr>edges := es\<rparr>;
         graph = (if index = next_edge_index graph - 1
                  then graph\<lparr>next_edge_index := next_edge_index graph - 1\<rparr>
                  else graph\<lparr>free_edge_slots := push (free_edge_slots graph) index\<rparr>)
     in ret (graph\<lparr>number_of_edges := number_of_edges graph - 1\<rparr>)))))))))))"

subsection \<open>Relabelling (lines 814 to 918)\<close>

definition relabelNode :: "Graph \<Rightarrow> addr \<Rightarrow> LabelPtr \<Rightarrow> bool \<Rightarrow> bool \<Rightarrow> Graph prog" where
  "relabelNode graph node new_label change_label change_root =
     bnd (if change_root
          then bnd (read_node (Some node)) (\<lambda>n.
               if root_n n
               then bnd (write_node node (n\<lparr>root_n := False\<rparr>)) (\<lambda>_.
                    ret (graph\<lparr>root_nodes := remove1 node (root_nodes graph)\<rparr>))
               else bnd (write_node node (n\<lparr>root_n := True\<rparr>)) (\<lambda>_.
                    ret (graph\<lparr>root_nodes := node # root_nodes graph\<rparr>)))
          else ret graph) (\<lambda>graph.
     if change_label = False then ret graph
     else
       bnd (read_node (Some node)) (\<lambda>n.
       bnd (if new_label = NullLabel then ret (BlankLabel, EMPTY_L)
            else bnd (getLabelClass new_label) (\<lambda>c. ret (new_label, c))) (\<lambda>(l, new_label_class).
       if label_class_n n \<noteq> new_label_class
       then
         let hash_key_1 = label_class_n n;
             hash_key_2 = new_label_class;
             old_node_list = remove1 node (g_hash_table_lookup (nodes_by_label graph) hash_key_1);
             graph = graph\<lparr>nodes_by_label := (nodes_by_label graph)(hash_key_1 := Some old_node_list)\<rparr>;
             new_node_list = node # g_hash_table_lookup (nodes_by_label graph) hash_key_2;
             graph = graph\<lparr>nodes_by_label := (nodes_by_label graph)(hash_key_2 := Some new_node_list)\<rparr>
         in bnd (write_node node (n\<lparr>label_n := l, label_class_n := new_label_class\<rparr>)) (\<lambda>_.
            ret graph)
       else bnd (write_node node (n\<lparr>label_n := l\<rparr>)) (\<lambda>_. ret graph))))"

definition relabelEdge :: "Graph \<Rightarrow> addr \<Rightarrow> LabelPtr \<Rightarrow> bool \<Rightarrow> bool \<Rightarrow> Graph prog" where
  "relabelEdge graph edge new_label change_label change_bidirectional =
     bnd (if change_bidirectional
          then bnd (read_edge (Some edge)) (\<lambda>e.
               write_edge edge (e\<lparr>bidirectional := \<not> bidirectional e\<rparr>))
          else ret ()) (\<lambda>_.
     if change_label = False then ret graph
     else
       bnd (read_edge (Some edge)) (\<lambda>e.
       bnd (if new_label = NullLabel then ret (BlankLabel, EMPTY_L)
            else bnd (getLabelClass new_label) (\<lambda>c. ret (new_label, c))) (\<lambda>(l, new_label_class).
       if label_class_e e \<noteq> new_label_class
       then
         let hash_key_1 = label_class_e e;
             hash_key_2 = new_label_class;
             old_edge_list = remove1 edge (g_hash_table_lookup (edges_by_label graph) hash_key_1);
             graph = graph\<lparr>edges_by_label := (edges_by_label graph)(hash_key_1 := Some old_edge_list)\<rparr>;
             new_edge_list = edge # g_hash_table_lookup (edges_by_label graph) hash_key_2;
             graph = graph\<lparr>edges_by_label := (edges_by_label graph)(hash_key_2 := Some new_edge_list)\<rparr>
         in bnd (write_edge edge (e\<lparr>label_e := l, label_class_e := new_label_class\<rparr>)) (\<lambda>_.
            ret graph)
       else bnd (write_edge edge (e\<lparr>label_e := l\<rparr>)) (\<lambda>_. ret graph))))"

subsection \<open>The public operations of the spec\<close>

text \<open>
  The spec's \<open>add_node\<close> and \<open>add_edge\<close> create the entity and insert it: they are
  \<^verbatim>\<open>newNode\<close> followed by \<^verbatim>\<open>addNode\<close>, and \<^verbatim>\<open>newEdge\<close> followed by \<^verbatim>\<open>addEdge\<close>. The handle they
  yield is the pointer to the entity.
\<close>

definition add_node :: "Graph \<Rightarrow> bool \<Rightarrow> LabelPtr \<Rightarrow> (addr \<times> Graph) prog" where
  "add_node graph root label =
     bnd (newNode root label) (\<lambda>node.
     bnd (addNode graph node) (\<lambda>graph. ret (node, graph)))"

definition add_edge :: "Graph \<Rightarrow> bool \<Rightarrow> LabelPtr \<Rightarrow> addr \<Rightarrow> addr \<Rightarrow> (addr \<times> Graph) prog" where
  "add_edge graph bidir label src tgt =
     bnd (newEdge bidir label (Some src) (Some tgt)) (\<lambda>edge.
     bnd (addEdge graph edge) (\<lambda>graph. ret (edge, graph)))"

subsection \<open>Releasing a graph (lines 1616 to 1676)\<close>

text \<open>
  \<^verbatim>\<open>freeNode\<close> and \<^verbatim>\<open>freeEdge\<close> read the entity (its label and arrays) and release it.
  \<^verbatim>\<open>freeGraph\<close> does so for every pointer below the two high-water marks.
\<close>

definition freeNode :: "addr option \<Rightarrow> unit prog" where
  "freeNode node = (case node of None \<Rightarrow> ret ()
     | Some a \<Rightarrow> bnd (read_node (Some a)) (\<lambda>_. free_node_mem a))"

definition freeEdge :: "addr option \<Rightarrow> unit prog" where
  "freeEdge edge = (case edge of None \<Rightarrow> ret ()
     | Some a \<Rightarrow> bnd (read_edge (Some a)) (\<lambda>_. free_edge_mem a))"

fun free_nodes :: "Graph \<Rightarrow> int list \<Rightarrow> unit prog" where
  "free_nodes graph [] = ret ()"
| "free_nodes graph (index # rest) =
     bnd (array_get (nodes graph) index) (\<lambda>node.
     bnd (freeNode node) (\<lambda>_. free_nodes graph rest))"

fun free_edges :: "Graph \<Rightarrow> int list \<Rightarrow> unit prog" where
  "free_edges graph [] = ret ()"
| "free_edges graph (index # rest) =
     bnd (array_get (edges graph) index) (\<lambda>edge.
     bnd (freeEdge edge) (\<lambda>_. free_edges graph rest))"

definition freeGraph :: "Graph \<Rightarrow> unit prog" where
  "freeGraph graph =
     bnd (free_nodes graph (upto_int (next_node_index graph))) (\<lambda>_.
     free_edges graph (upto_int (next_edge_index graph)))"

subsection \<open>Copying and restoring a graph (lines 921 to 1125)\<close>

text \<open>
  The three loops of \<^verbatim>\<open>copyGraph\<close>. The first copies the edges slot by slot: an empty slot
  goes on the free-slot stack of the copy, an edge is copied with \<^verbatim>\<open>memcpy\<close>, gets a copy of
  its label and is entered in the class table of the copy.
\<close>

fun copy_edges :: "Graph \<Rightarrow> int list \<Rightarrow> Graph \<Rightarrow> Graph prog" where
  "copy_edges graph [] graph_copy = ret graph_copy"
| "copy_edges graph (index # rest) graph_copy =
     bnd (getEdge graph index) (\<lambda>edge.
     bnd (case edge of
            None \<Rightarrow> ret (graph_copy\<lparr>free_edge_slots := push (free_edge_slots graph_copy) index\<rparr>)
          | Some a \<Rightarrow>
              bnd (read_edge (Some a)) (\<lambda>e.
              bnd (copyLabel (label_e e)) (\<lambda>l.
              bnd (malloc_edge (e\<lparr>label_e := l\<rparr>)) (\<lambda>edge_copy.
              bnd (array_set (edges graph_copy) index (Some edge_copy)) (\<lambda>es.
              let graph_copy = graph_copy\<lparr>edges := es\<rparr>;
                  hash_key = label_class_e e;
                  edge_list = getEdgesByLabel graph_copy hash_key
              in ret (graph_copy\<lparr>edges_by_label :=
                        (edges_by_label graph_copy)(hash_key := Some (edge_copy # edge_list))\<rparr>))))))
       (\<lambda>graph_copy. copy_edges graph rest graph_copy))"

text \<open>
  The inner loops of the second pass fill an incidence array of a node copy: an empty
  position of the original goes on the free-slot stack of the copy, an edge is replaced by
  the edge that the copy of the graph holds at the same index. \<open>get\<close> is \<^verbatim>\<open>getOutEdge\<close> or
  \<^verbatim>\<open>getInEdge\<close>.
\<close>

fun copy_incident :: "(addr option \<Rightarrow> int \<Rightarrow> addr option prog) \<Rightarrow> Graph \<Rightarrow> addr option
    \<Rightarrow> int list \<Rightarrow> addr option list \<times> int list \<Rightarrow> (addr option list \<times> int list) prog" where
  "copy_incident get graph_copy node [] acc = ret acc"
| "copy_incident get graph_copy node (counter # rest) acc =
     bnd (get node counter) (\<lambda>edge.
     bnd (case edge of
            None \<Rightarrow> ret (fst acc, push (snd acc) counter)
          | Some a \<Rightarrow>
              bnd (read_edge (Some a)) (\<lambda>e.
              bnd (getEdge graph_copy (index_e e)) (\<lambda>edge_copy.
              bnd (array_set (fst acc) counter edge_copy) (\<lambda>arr.
              ret (arr, snd acc)))))
       (\<lambda>acc. copy_incident get graph_copy node rest acc))"

fun copy_nodes :: "Graph \<Rightarrow> int list \<Rightarrow> Graph \<Rightarrow> Graph prog" where
  "copy_nodes graph [] graph_copy = ret graph_copy"
| "copy_nodes graph (index # rest) graph_copy =
     bnd (getNode graph index) (\<lambda>node.
     bnd (case node of
            None \<Rightarrow> ret (graph_copy\<lparr>free_node_slots := push (free_node_slots graph_copy) index\<rparr>)
          | Some a \<Rightarrow>
              bnd (read_node (Some a)) (\<lambda>n.
              bnd (copyLabel (label_n n)) (\<lambda>l. (\<lambda>w.
             (bnd (copy_incident getOutEdge graph_copy (Some a)
                     (upto_int (next_out_edge_index n))
                     (replicate (MAX_INCIDENT_EDGES w) None, [])) (\<lambda>(oe, fo).
              bnd (copy_incident getInEdge graph_copy (Some a)
                     (upto_int (next_in_edge_index n))
                     (replicate (MAX_INCIDENT_EDGES w) None, [])) (\<lambda>(ie, fi).
              bnd (malloc_node (n\<lparr>label_n := l, out_edges := oe, in_edges := ie,
                     free_out_edge_slots := fo, free_in_edge_slots := fi\<rparr>)) (\<lambda>node_copy.
              bnd (array_set (nodes graph_copy) index (Some node_copy)) (\<lambda>ns.
              let graph_copy = graph_copy\<lparr>nodes := ns\<rparr>;
                  hash_key = label_class_n n;
                  node_list = getNodesByLabel graph_copy hash_key;
                  graph_copy = graph_copy\<lparr>nodes_by_label :=
                     (nodes_by_label graph_copy)(hash_key := Some (node_copy # node_list))\<rparr>
              in ret (if root_n n
                      then graph_copy\<lparr>root_nodes := node_copy # root_nodes graph_copy\<rparr>
                      else graph_copy)))))) w))))
       (\<lambda>graph_copy. copy_nodes graph rest graph_copy))"

text \<open>
  The third pass visits every index below the high-water mark of the copy and reads the
  source and the target of the edge there, without a test for an empty slot.
\<close>

fun redirect_edges :: "Graph \<Rightarrow> int list \<Rightarrow> unit prog" where
  "redirect_edges graph_copy [] = ret ()"
| "redirect_edges graph_copy (index # rest) =
     bnd (getEdge graph_copy index) (\<lambda>edge_copy.
     bnd (getSource edge_copy) (\<lambda>src.
     bnd (read_node src) (\<lambda>s.
     bnd (getNode graph_copy (index_n s)) (\<lambda>source_copy.
     bnd (deref_edge edge_copy) (\<lambda>(a, e).
     bnd (write_edge a (e\<lparr>source := source_copy\<rparr>)) (\<lambda>_.
     bnd (getTarget edge_copy) (\<lambda>tgt.
     bnd (read_node tgt) (\<lambda>t.
     bnd (getNode graph_copy (index_n t)) (\<lambda>target_copy.
     bnd (deref_edge edge_copy) (\<lambda>(a, e).
     bnd (write_edge a (e\<lparr>target := target_copy\<rparr>)) (\<lambda>_.
     redirect_edges graph_copy rest)))))))))))"

definition copyGraph :: "Graph \<Rightarrow> unit prog" where
  "copyGraph graph =
     bnd newGraph (\<lambda>graph_copy.
     let graph_copy = graph_copy\<lparr>next_node_index := next_node_index graph,
                                 next_edge_index := next_edge_index graph,
                                 number_of_nodes := number_of_nodes graph,
                                 number_of_edges := number_of_edges graph\<rparr>
     in
     bnd (copy_edges graph (upto_int (next_edge_index graph)) graph_copy) (\<lambda>graph_copy.
     bnd (copy_nodes graph (upto_int (next_node_index graph)) graph_copy) (\<lambda>graph_copy.
     bnd (redirect_edges graph_copy (upto_int (next_edge_index graph_copy))) (\<lambda>_.
     (\<lambda>w. Inr ((), w\<lparr>graph_stack := push (graph_stack w) graph_copy\<rparr>))))))"

text \<open>\<^verbatim>\<open>restoreGraph\<close> reads \<^verbatim>\<open>data->graph\<close> of what \<^verbatim>\<open>pop\<close> returns, \<^verbatim>\<open>NULL\<close> on an empty stack.\<close>

definition restoreGraph :: "Graph \<Rightarrow> Graph prog" where
  "restoreGraph graph =
     bnd (freeGraph graph) (\<lambda>_. (\<lambda>w.
     case pop (graph_stack w) of
       (None, _) \<Rightarrow> Inl NullDereference
     | (Some output, st) \<Rightarrow> Inr (output, w\<lparr>graph_stack := st\<rparr>)))"

subsection \<open>The validation predicate (lines 95 to 418)\<close>

text \<open>
  The local variables of \<^verbatim>\<open>validGraph\<close> that live across its loops. What the function
  prints to the console is not modelled; its result is the final value of \<open>valid_graph\<close>.
\<close>

record locals =
  valid_graph :: bool
  slot_found :: bool
  node_count :: int
  edge_count :: int

text \<open>The walk down a free-slot stack: \<open>slot_found\<close> becomes true at the first equal entry.\<close>

fun search_free_slots :: "int list \<Rightarrow> int \<Rightarrow> bool \<Rightarrow> bool" where
  "search_free_slots [] i found = found"
| "search_free_slots (free_slot # next) i found =
     (if free_slot = i then True else search_free_slots next i found)"

text \<open>
  The check of one position of an incidence array, invariants (5) to (9) of the source.
  \<open>get\<close> is \<^verbatim>\<open>getOutEdge\<close> or \<^verbatim>\<open>getInEdge\<close>, \<open>free_slots\<close> and \<open>next_index\<close> are the free-slot
  stack and the high-water mark of that array.
\<close>

fun check_incident :: "(addr option \<Rightarrow> int \<Rightarrow> addr option prog) \<Rightarrow> Graph \<Rightarrow> addr option
    \<Rightarrow> int list \<Rightarrow> int \<Rightarrow> int list \<Rightarrow> locals \<Rightarrow> locals prog" where
  "check_incident get graph node free_slots next_index [] v = ret v"
| "check_incident get graph node free_slots next_index (node_index # rest) v =
     bnd (get node node_index) (\<lambda>node_edge.
     bnd (case node_edge of
            None \<Rightarrow>
              let found = search_free_slots free_slots node_index (slot_found v);
                  v = (if \<not> found \<and> next_index > 0 then v\<lparr>valid_graph := False\<rparr> else v)
              in ret (v\<lparr>slot_found := False\<rparr>)
          | Some a \<Rightarrow>
              let v = v\<lparr>edge_count := edge_count v + 1\<rparr> in
              bnd (read_edge (Some a)) (\<lambda>e.
              bnd (getEdge graph (index_e e)) (\<lambda>graph_edge.
              ret (if node_edge \<noteq> graph_edge then v\<lparr>valid_graph := False\<rparr> else v))))
       (\<lambda>v. check_incident get graph node free_slots next_index rest v))"

fun check_nodes :: "Graph \<Rightarrow> int list \<Rightarrow> locals \<Rightarrow> locals prog" where
  "check_nodes graph [] v = ret v"
| "check_nodes graph (graph_index # rest) v =
     bnd (getNode graph graph_index) (\<lambda>node.
     bnd (case node of
            None \<Rightarrow>
              let found = search_free_slots (free_node_slots graph) graph_index (slot_found v);
                  v = (if \<not> found \<and> next_node_index graph > 0
                       then v\<lparr>valid_graph := False\<rparr> else v)
              in ret (v\<lparr>slot_found := False\<rparr>)
          | Some a \<Rightarrow>
              let v = v\<lparr>node_count := node_count v + 1\<rparr> in
              bnd (read_node (Some a)) (\<lambda>n.
              bnd (check_incident getOutEdge graph (Some a) (free_out_edge_slots n)
                     (next_out_edge_index n) (upto_int (next_out_edge_index n)) v) (\<lambda>v.
              let v = (if outdegree n \<noteq> edge_count v then v\<lparr>valid_graph := False\<rparr> else v);
                  v = v\<lparr>edge_count := 0\<rparr>
              in
              bnd (check_incident getInEdge graph (Some a) (free_in_edge_slots n)
                     (next_in_edge_index n) (upto_int (next_in_edge_index n)) v) (\<lambda>v.
              let v = (if indegree n \<noteq> edge_count v then v\<lparr>valid_graph := False\<rparr> else v);
                  v = v\<lparr>edge_count := 0\<rparr>;
                  node_list = getNodesByLabel graph (label_class_n n)
              in ret (if a \<notin> set node_list then v\<lparr>valid_graph := False\<rparr> else v)))))
       (\<lambda>v. check_nodes graph rest v))"

text \<open>
  The search for an edge in an incidence array of one of its end points, invariant (11):
  the positions searched are those below the degree of the node.
\<close>

fun search_incident :: "(addr option \<Rightarrow> int \<Rightarrow> addr option prog) \<Rightarrow> addr option \<Rightarrow> addr option
    \<Rightarrow> int list \<Rightarrow> bool prog" where
  "search_incident get node edge [] = ret False"
| "search_incident get node edge (counter # rest) =
     bnd (get node counter) (\<lambda>x.
     if x = edge then ret True else search_incident get node edge rest)"

fun check_edges :: "Graph \<Rightarrow> int list \<Rightarrow> locals \<Rightarrow> locals prog" where
  "check_edges graph [] v = ret v"
| "check_edges graph (graph_index # rest) v =
     bnd (getEdge graph graph_index) (\<lambda>edge.
     let v = v\<lparr>slot_found := False\<rparr> in
     bnd (case edge of
            None \<Rightarrow>
              let found = search_free_slots (free_edge_slots graph) graph_index (slot_found v);
                  v = v\<lparr>slot_found := found\<rparr>
              in ret (if \<not> found \<and> next_edge_index graph > 0
                      then v\<lparr>valid_graph := False\<rparr> else v)
          | Some a \<Rightarrow>
              let v = v\<lparr>edge_count := edge_count v + 1\<rparr> in
              bnd (read_edge (Some a)) (\<lambda>e.
              bnd (getSource edge) (\<lambda>src.
              bnd (read_node src) (\<lambda>s.
              bnd (getNode graph (index_n s)) (\<lambda>node.
              let v = (if src \<noteq> node then v\<lparr>valid_graph := False\<rparr> else v) in
              bnd (search_incident getOutEdge src edge (upto_int (outdegree s))) (\<lambda>edge_found.
              let v = (if \<not> edge_found then v\<lparr>valid_graph := False\<rparr> else v) in
              bnd (getTarget edge) (\<lambda>tgt.
              bnd (read_node tgt) (\<lambda>t.
              bnd (getNode graph (index_n t)) (\<lambda>node.
              let v = (if tgt \<noteq> node then v\<lparr>valid_graph := False\<rparr> else v) in
              bnd (search_incident getInEdge tgt edge (upto_int (indegree t))) (\<lambda>edge_found.
              let v = (if \<not> edge_found then v\<lparr>valid_graph := False\<rparr> else v);
                  edge_list = getEdgesByLabel graph (label_class_e e)
              in ret (if a \<notin> set edge_list then v\<lparr>valid_graph := False\<rparr> else v)))))))))))
       (\<lambda>v. check_edges graph rest v))"

text \<open>The argument is a \<^verbatim>\<open>Graph *\<close>: \<open>None\<close> is the \<^verbatim>\<open>NULL\<close> graph.\<close>

definition validGraph :: "Graph option \<Rightarrow> bool prog" where
  "validGraph graph_ptr =
     (case graph_ptr of
        None \<Rightarrow> ret True
      | Some graph \<Rightarrow>
          if number_of_edges graph = 0 \<and> number_of_nodes graph = 0 then ret True
          else
            let v = \<lparr>valid_graph = True, slot_found = False, node_count = 0, edge_count = 0\<rparr> in
            bnd (check_nodes graph (upto_int (next_node_index graph)) v) (\<lambda>v.
            let v = (if node_count v \<noteq> number_of_nodes graph
                     then v\<lparr>valid_graph := False\<rparr> else v) in
            bnd (check_edges graph (upto_int (next_edge_index graph)) v) (\<lambda>v.
            let v = (if edge_count v \<noteq> number_of_edges graph
                     then v\<lparr>valid_graph := False\<rparr> else v) in
            ret (valid_graph v))))"

subsection \<open>The global invariants of the spec\<close>

text \<open>
  The seven global invariants of section 3 of the spec, written from its words as a check
  that runs on a graph and a world: \<open>slots_below\<close> pairs every slot below the high-water
  mark of a container with its content, and \<open>occupied\<close> lists the entities in the non-empty
  ones. They are compared with what \<open>validGraph\<close> returns.
\<close>

definition slots_below :: "addr option list \<Rightarrow> int \<Rightarrow> (int \<times> addr option) list" where
  "slots_below arr h = zip (upto_int h) (take (nat h) arr)"

definition occupied :: "addr option list \<Rightarrow> int \<Rightarrow> addr list" where
  "occupied arr h = concat (map (\<lambda>p. case p of None \<Rightarrow> [] | Some a \<Rightarrow> [a]) (take (nat h) arr))"

definition all_classes :: "LabelClass list" where
  "all_classes = [EMPTY_L, INT_L, STRING_L, ATOMIC_VAR_L, LIST2_L, LIST3_L, LIST4_L, LIST5_L,
     LISTVAR_L]"

definition spec_inv1 :: "Graph \<Rightarrow> world \<Rightarrow> bool" where
  "spec_inv1 g w = list_all (\<lambda>(i, p). case p of None \<Rightarrow> True
       | Some a \<Rightarrow> map_option index_n (node_heap w a) = Some i)
     (slots_below (nodes g) (next_node_index g))"

definition spec_inv2 :: "Graph \<Rightarrow> bool" where
  "spec_inv2 g =
     (list_all (\<lambda>(i, p). case p of None \<Rightarrow> count_list (free_node_slots g) i = 1
        | Some a \<Rightarrow> True) (slots_below (nodes g) (next_node_index g)) \<and>
      list_all (\<lambda>(i, p). case p of None \<Rightarrow> count_list (free_edge_slots g) i = 1
        | Some a \<Rightarrow> True) (slots_below (edges g) (next_edge_index g)))"

definition spec_inv3 :: "Graph \<Rightarrow> bool" where
  "spec_inv3 g =
     (number_of_nodes g = int (length (occupied (nodes g) (next_node_index g))) \<and>
      number_of_edges g = int (length (occupied (edges g) (next_edge_index g))))"

definition spec_inv4 :: "Graph \<Rightarrow> world \<Rightarrow> bool" where
  "spec_inv4 g w = list_all (\<lambda>a.
       case edge_heap w a of None \<Rightarrow> False
       | Some e \<Rightarrow>
          (case source e of None \<Rightarrow> False
           | Some sa \<Rightarrow> (case node_heap w sa of None \<Rightarrow> False
              | Some s \<Rightarrow> count_list (occupied (out_edges s) (next_out_edge_index s)) a = 1)) \<and>
          (case target e of None \<Rightarrow> False
           | Some ta \<Rightarrow> (case node_heap w ta of None \<Rightarrow> False
              | Some t \<Rightarrow> count_list (occupied (in_edges t) (next_in_edge_index t)) a = 1)))
     (occupied (edges g) (next_edge_index g))"

definition spec_inv5 :: "Graph \<Rightarrow> world \<Rightarrow> bool" where
  "spec_inv5 g w = list_all (\<lambda>a.
       case node_heap w a of None \<Rightarrow> False
       | Some n \<Rightarrow>
           indegree n = int (length (occupied (in_edges n) (next_in_edge_index n))) \<and>
           outdegree n = int (length (occupied (out_edges n) (next_out_edge_index n))))
     (occupied (nodes g) (next_node_index g))"

definition spec_inv6 :: "Graph \<Rightarrow> world \<Rightarrow> bool" where
  "spec_inv6 g w =
     (list_all (\<lambda>a. case node_heap w a of None \<Rightarrow> False
        | Some n \<Rightarrow> list_all (\<lambda>c. count_list (getNodesByLabel g c) a
                                  = (if c = label_class_n n then 1 else 0)) all_classes)
        (occupied (nodes g) (next_node_index g)) \<and>
      list_all (\<lambda>a. case edge_heap w a of None \<Rightarrow> False
        | Some e \<Rightarrow> list_all (\<lambda>c. count_list (getEdgesByLabel g c) a
                                  = (if c = label_class_e e then 1 else 0)) all_classes)
        (occupied (edges g) (next_edge_index g)))"

definition spec_inv7 :: "Graph \<Rightarrow> world \<Rightarrow> bool" where
  "spec_inv7 g w = list_all (\<lambda>a. case node_heap w a of None \<Rightarrow> False
        | Some n \<Rightarrow> (a \<in> set (getRootNodes g)) = root_n n)
     (occupied (nodes g) (next_node_index g))"

definition spec_invariants :: "Graph \<Rightarrow> bool prog" where
  "spec_invariants g = (\<lambda>w. Inr (spec_inv1 g w \<and> spec_inv2 g \<and> spec_inv3 g \<and> spec_inv4 g w \<and>
     spec_inv5 g w \<and> spec_inv6 g w \<and> spec_inv7 g w, w))"

subsection \<open>The read-only query surface\<close>

text \<open>
  What the queries of the source tell about a graph, with every pointer replaced by the
  index that the entity records: for each slot below the high-water marks the node (root
  flag, label, class, degrees, the edges at the positions of its two incidence arrays) or
  the edge (direction flag, label, class, source, target) or nothing, then the class lists
  of the nodes and of the edges and the root list. Two graphs with the same view are
  indistinguishable in the sense of the spec.
\<close>

definition node_index_of :: "world \<Rightarrow> addr option \<Rightarrow> int option" where
  "node_index_of w p = (case p of None \<Rightarrow> None | Some a \<Rightarrow> map_option index_n (node_heap w a))"

definition edge_index_of :: "world \<Rightarrow> addr option \<Rightarrow> int option" where
  "edge_index_of w p = (case p of None \<Rightarrow> None | Some a \<Rightarrow> map_option index_e (edge_heap w a))"

type_synonym node_view =
  "bool \<times> LabelPtr \<times> LabelClass \<times> int \<times> int \<times> int option list \<times> int option list"

type_synonym edge_view = "bool \<times> LabelPtr \<times> LabelClass \<times> int option \<times> int option"

definition view_node :: "world \<Rightarrow> addr option \<Rightarrow> node_view option" where
  "view_node w p = (case p of None \<Rightarrow> None | Some a \<Rightarrow>
     (case node_heap w a of None \<Rightarrow> None
      | Some n \<Rightarrow> Some (root_n n, label_n n, label_class_n n, indegree n, outdegree n,
          map (edge_index_of w) (take (nat (next_out_edge_index n)) (out_edges n)),
          map (edge_index_of w) (take (nat (next_in_edge_index n)) (in_edges n)))))"

definition view_edge :: "world \<Rightarrow> addr option \<Rightarrow> edge_view option" where
  "view_edge w p = (case p of None \<Rightarrow> None | Some a \<Rightarrow>
     (case edge_heap w a of None \<Rightarrow> None
      | Some e \<Rightarrow> Some (bidirectional e, label_e e, label_class_e e,
          node_index_of w (source e), node_index_of w (target e))))"

type_synonym graph_view =
  "node_view option list \<times> edge_view option list \<times> int option list list \<times>
   int option list list \<times> int option list"

definition observe :: "Graph \<Rightarrow> graph_view prog" where
  "observe g = (\<lambda>w. Inr
     ((map (view_node w) (take (nat (next_node_index g)) (nodes g)),
       map (view_edge w) (take (nat (next_edge_index g)) (edges g)),
       map (\<lambda>c. map (\<lambda>a. node_index_of w (Some a)) (getNodesByLabel g c)) all_classes,
       map (\<lambda>c. map (\<lambda>a. edge_index_of w (Some a)) (getEdgesByLabel g c)) all_classes,
       map (\<lambda>a. node_index_of w (Some a)) (getRootNodes g)), w))"

subsection \<open>Graphs built by the public operations\<close>

text \<open>
  \<open>post m w Q\<close>: if the program \<open>m\<close> returns from the world \<open>w\<close>, its result and the
  world it leaves satisfy \<open>Q\<close>.
\<close>

definition post :: "'a prog \<Rightarrow> world \<Rightarrow> ('a \<Rightarrow> world \<Rightarrow> bool) \<Rightarrow> bool" where
  "post m w Q = (case m w of Inl e \<Rightarrow> True | Inr (x, w') \<Rightarrow> Q x w')"

text \<open>
  A node of the graph is a pointer held in its node array. \<open>node_inv\<close> is what the
  functions of the source keep true of the node array, its free-slot stack, the node
  counter, the class lists and the root list: the slots from the high-water mark on are
  empty, the stack holds the empty slots below it, each once, every node is allocated and
  records the index of its slot, and a node occurs once in the list of the class it
  records, in no other class list, and once in the root list when its root flag is set.
\<close>

definition live_node :: "Graph \<Rightarrow> addr \<Rightarrow> bool" where
  "live_node g a = (Some a \<in> set (nodes g))"

definition node_inv :: "Graph \<Rightarrow> world \<Rightarrow> bool" where
  "node_inv g w =
     (0 \<le> next_node_index g \<and> next_node_index g \<le> int (length (nodes g)) \<and>
      (\<forall>i. nat (next_node_index g) \<le> i \<and> i < length (nodes g) \<longrightarrow> nodes g ! i = None) \<and>
      distinct (free_node_slots g) \<and>
      (\<forall>s \<in> set (free_node_slots g).
          0 \<le> s \<and> s < next_node_index g \<and> nodes g ! nat s = None) \<and>
      (\<forall>i. int i < next_node_index g \<and> nodes g ! i = None
          \<longrightarrow> int i \<in> set (free_node_slots g)) \<and>
      (\<forall>a. live_node g a \<longrightarrow> a < next_addr w) \<and>
      (\<forall>i a. i < length (nodes g) \<and> nodes g ! i = Some a
          \<longrightarrow> map_option index_n (node_heap w a) = Some (int i)) \<and>
      number_of_nodes g = int (length (filter (\<lambda>p. p \<noteq> None) (nodes g))) \<and>
      (\<forall>c a. count_list (getNodesByLabel g c) a =
          (if live_node g a \<and> map_option label_class_n (node_heap w a) = Some c
           then 1 else 0)) \<and>
      (\<forall>a. count_list (getRootNodes g) a =
          (if live_node g a \<and> map_option root_n (node_heap w a) = Some True then 1 else 0)))"

text \<open>
  \<open>node_frame\<close> relates two states with the same node array, stack, counter and lists, in
  which the nodes allocated in the first record the same index, class and root flag in the
  second. The functions on edges change a node in its incidence arrays and degrees only.
\<close>

definition node_frame :: "Graph \<Rightarrow> world \<Rightarrow> Graph \<Rightarrow> world \<Rightarrow> bool" where
  "node_frame g w g' w' =
     (nodes g' = nodes g \<and> free_node_slots g' = free_node_slots g \<and>
      next_node_index g' = next_node_index g \<and> nodes_by_label g' = nodes_by_label g \<and>
      root_nodes g' = root_nodes g \<and> number_of_nodes g' = number_of_nodes g \<and>
      next_addr w \<le> next_addr w' \<and>
      (\<forall>a. a < next_addr w \<longrightarrow>
         map_option label_class_n (node_heap w' a) = map_option label_class_n (node_heap w a) \<and>
         map_option root_n (node_heap w' a) = map_option root_n (node_heap w a) \<and>
         map_option index_n (node_heap w' a) = map_option index_n (node_heap w a)))"

text \<open>
  The graphs that the public operations build from \<open>newGraph\<close>, with the world they are in.
  \<open>relabelNode\<close> is given a node of the graph, as \<open>getNode\<close> returns it; the pointers given
  to \<open>add_edge\<close> and \<open>relabelEdge\<close> are arbitrary.
\<close>

inductive reachable :: "Graph \<Rightarrow> world \<Rightarrow> bool" where
  reach_new: "newGraph w = Inr (g, w') \<Longrightarrow> reachable g w'"
| reach_add_node:
    "reachable g w \<Longrightarrow> add_node g root label w = Inr ((node, g'), w') \<Longrightarrow> reachable g' w'"
| reach_add_edge:
    "reachable g w \<Longrightarrow> add_edge g bidir label src tgt w = Inr ((edge, g'), w')
     \<Longrightarrow> reachable g' w'"
| reach_remove_node:
    "reachable g w \<Longrightarrow> removeNode g index w = Inr (g', w') \<Longrightarrow> reachable g' w'"
| reach_remove_edge:
    "reachable g w \<Longrightarrow> removeEdge g index w = Inr (g', w') \<Longrightarrow> reachable g' w'"
| reach_relabel_node:
    "reachable g w \<Longrightarrow> getNode g index w = Inr (Some node, w)
     \<Longrightarrow> relabelNode g node label change_label change_root w = Inr (g', w')
     \<Longrightarrow> reachable g' w'"
| reach_relabel_edge:
    "reachable g w \<Longrightarrow> relabelEdge g edge label change_label change_bidirectional w = Inr (g', w')
     \<Longrightarrow> reachable g' w'"

subsection \<open>Concrete worlds and graphs\<close>

text \<open>
  \<open>cont\<close> continues a program after the result of its first part; it is \<open>bnd\<close> with the
  world applied, and is used to run programs on concrete worlds step by step.
\<close>

definition cont :: "fault + ('a \<times> world) \<Rightarrow> ('a \<Rightarrow> 'b prog) \<Rightarrow> fault + ('b \<times> world)" where
  "cont r f = (case r of Inl e \<Rightarrow> Inl e | Inr (x, w') \<Rightarrow> f x w')"

text \<open>
  The initial world: nothing allocated, an empty log, no snapshot, room for 8 nodes,
  8 edges and 4 incident edges in each direction. A fresh \<^verbatim>\<open>Label\<close> block holds a nonzero
  \<^verbatim>\<open>has_list_variable\<close>.
\<close>

definition world0 :: world where
  "world0 = \<lparr>node_heap = (\<lambda>_. None), edge_heap = (\<lambda>_. None), next_addr = 0, graph_stack = [],
     log_w = [], MAX_NODES = 8, MAX_EDGES = 8, MAX_INCIDENT_EDGES = 4,
     uninit_label = \<lparr>mark = GREY, list_l = [], list_length = 7, has_list_variable = True\<rparr>\<rparr>"

text \<open>A heap label with the given atoms, no mark, and the length field that the list has.\<close>

definition label_of :: "ListElement list \<Rightarrow> bool \<Rightarrow> LabelPtr" where
  "label_of atoms has_var = HeapLabel
     \<lparr>mark = NONE, list_l = map Some atoms, list_length = int (length atoms),
      has_list_variable = has_var\<rparr>"

text \<open>
  Scenario S1 of the spec: five nodes with empty labels, the first a root, and the edges
  N0 to N1, N1 to N2, N2 to N3, N3 to N4.
\<close>

definition S1 :: "Graph prog" where
  "S1 = bnd newGraph (\<lambda>g.
        bnd (add_node g True NullLabel) (\<lambda>(n0, g).
        bnd (add_node g False NullLabel) (\<lambda>(n1, g).
        bnd (add_node g False NullLabel) (\<lambda>(n2, g).
        bnd (add_node g False NullLabel) (\<lambda>(n3, g).
        bnd (add_node g False NullLabel) (\<lambda>(n4, g).
        bnd (add_edge g False NullLabel n0 n1) (\<lambda>(e0, g).
        bnd (add_edge g False NullLabel n1 n2) (\<lambda>(e1, g).
        bnd (add_edge g False NullLabel n2 n3) (\<lambda>(e2, g).
        bnd (add_edge g False NullLabel n3 n4) (\<lambda>(e3, g).
        ret g))))))))))"

text \<open>
  The graph and the world that S1 ends in, written out (\<open>S1_result\<close> below): the nodes are
  at the addresses 0 to 4, the edges at 5 to 8.
\<close>

definition S1_node :: "int \<Rightarrow> bool \<Rightarrow> addr option \<Rightarrow> addr option \<Rightarrow> Node" where
  "S1_node i r out_e in_e =
     \<lparr>index_n = i, root_n = r, label_class_n = EMPTY_L, label_n = BlankLabel,
      indegree = (if in_e = None then 0 else 1), outdegree = (if out_e = None then 0 else 1),
      out_edges = [out_e, None, None, None], in_edges = [in_e, None, None, None],
      free_out_edge_slots = [], free_in_edge_slots = [],
      next_out_edge_index = (if out_e = None then 0 else 1),
      next_in_edge_index = (if in_e = None then 0 else 1)\<rparr>"

definition S1_edge :: "int \<Rightarrow> addr \<Rightarrow> addr \<Rightarrow> Edge" where
  "S1_edge i s t = \<lparr>index_e = i, bidirectional = False, label_class_e = EMPTY_L,
      label_e = BlankLabel, source = Some s, target = Some t\<rparr>"

definition S1_graph :: Graph where
  "S1_graph =
     \<lparr>nodes = [Some 0, Some 1, Some 2, Some 3, Some 4, None, None, None],
      edges = [Some 5, Some 6, Some 7, Some 8, None, None, None, None],
      free_node_slots = [], free_edge_slots = [],
      next_node_index = 5, next_edge_index = 4,
      number_of_nodes = 5, number_of_edges = 4,
      nodes_by_label = (\<lambda>_. None)(EMPTY_L := Some [4, 3, 2, 1, 0]),
      edges_by_label = (\<lambda>_. None)(EMPTY_L := Some [8, 7, 6, 5]),
      root_nodes = [0]\<rparr>"

definition S1_world :: world where
  "S1_world = world0
     \<lparr>node_heap := (\<lambda>_. None)
        (0 := Some (S1_node 0 True (Some 5) None),
         1 := Some (S1_node 1 False (Some 6) (Some 5)),
         2 := Some (S1_node 2 False (Some 7) (Some 6)),
         3 := Some (S1_node 3 False (Some 8) (Some 7)),
         4 := Some (S1_node 4 False None (Some 8))),
      edge_heap := (\<lambda>_. None)
        (5 := Some (S1_edge 0 0 1), 6 := Some (S1_edge 1 1 2),
         7 := Some (S1_edge 2 2 3), 8 := Some (S1_edge 3 3 4)),
      next_addr := 9\<rparr>"

text \<open>
  Scenarios S5 and S6 of the spec on the graph of S1. S5 takes a snapshot, removes edge 3
  and node 4 and restores; it yields whether the view of the restored graph is the view
  before the snapshot, and whether the view after the removals is. S6 takes a snapshot,
  removes edge 3, takes a second snapshot, removes node 4 and restores twice; it yields
  whether the first restored view is the view at the second snapshot, whether the second is
  the view at the first, and whether the two views are the same.
\<close>

definition S5 :: "(bool \<times> bool) prog" where
  "S5 = bnd S1 (\<lambda>g.
        bnd (observe g) (\<lambda>o1.
        bnd (copyGraph g) (\<lambda>_.
        bnd (removeEdge g 3) (\<lambda>g.
        bnd (removeNode g 4) (\<lambda>g.
        bnd (observe g) (\<lambda>o2.
        bnd (restoreGraph g) (\<lambda>g.
        bnd (observe g) (\<lambda>o3.
        ret (o3 = o1, o2 = o1)))))))))"

definition S6 :: "(bool \<times> bool \<times> bool) prog" where
  "S6 = bnd S1 (\<lambda>g.
        bnd (observe g) (\<lambda>o1.
        bnd (copyGraph g) (\<lambda>_.
        bnd (removeEdge g 3) (\<lambda>g.
        bnd (observe g) (\<lambda>o2.
        bnd (copyGraph g) (\<lambda>_.
        bnd (removeNode g 4) (\<lambda>g.
        bnd (restoreGraph g) (\<lambda>g.
        bnd (observe g) (\<lambda>o3.
        bnd (restoreGraph g) (\<lambda>g.
        bnd (observe g) (\<lambda>o4.
        ret (o3 = o2, o4 = o1, o2 = o1))))))))))))"

text \<open>
  A graph record with both counters at zero and nothing else in order: two empty node slots
  below the high-water mark that are on no stack, a free-slot stack with a repeated entry
  beyond the array, and a root list that names a node that does not exist.
\<close>

definition broken_empty_graph :: Graph where
  "broken_empty_graph =
     \<lparr>nodes = [None, None], edges = [None],
      free_node_slots = [5, 5], free_edge_slots = [],
      next_node_index = 2, next_edge_index = 1,
      number_of_nodes = 0, number_of_edges = 0,
      nodes_by_label = (\<lambda>_. None), edges_by_label = (\<lambda>_. None),
      root_nodes = [3]\<rparr>"

text \<open>
  A graph with a hole in its edge array and in two incidence arrays: two nodes, two
  parallel edges from the first to the second, then the first edge removed. The second edge
  stays at position 1 of the out-array of its source and of the in-array of its target;
  position 0 of both arrays and slot 0 of the edge array are on their free-slot stacks.
\<close>

definition churn :: "Graph prog" where
  "churn = bnd newGraph (\<lambda>g.
           bnd (add_node g False NullLabel) (\<lambda>(n0, g).
           bnd (add_node g False NullLabel) (\<lambda>(n1, g).
           bnd (add_edge g False NullLabel n0 n1) (\<lambda>(e0, g).
           bnd (add_edge g False NullLabel n0 n1) (\<lambda>(e1, g).
           removeEdge g 0)))))"

text \<open>A heap label with a mark and no atoms, as the host-graph text \<^verbatim>\<open>empty # red\<close> gives.\<close>

definition red_empty_label :: LabelPtr where
  "red_empty_label = HeapLabel
     \<lparr>mark = RED, list_l = [], list_length = 0, has_list_variable = False\<rparr>"

text \<open>
  The position that an insertion into a slotted array writes (the top of the free-slot
  stack, or the high-water mark when the stack is empty) lies inside the array.
\<close>

definition has_room :: "int list \<Rightarrow> int \<Rightarrow> nat \<Rightarrow> bool" where
  "has_room free_slots next_index cap =
     (case free_slots of [] \<Rightarrow> 0 \<le> next_index \<and> next_index < int cap
      | s # _ \<Rightarrow> 0 \<le> s \<and> s < int cap)"

text \<open>
  Scenario S2 of the spec after its first step: the graph of S1 with edge 1 removed
  (\<open>S2_removed\<close> below). \<open>S2_alloc_world\<close> holds in addition an edge from N1 to N3 and a
  node, both as \<^verbatim>\<open>newEdge\<close> and \<^verbatim>\<open>newNode\<close> return them, not yet inserted.
\<close>

definition S2_graph :: Graph where
  "S2_graph = S1_graph
     \<lparr>edges := [Some 5, None, Some 7, Some 8, None, None, None, None],
      free_edge_slots := [1], number_of_edges := 3,
      edges_by_label := (\<lambda>_. None)(EMPTY_L := Some [8, 7, 5])\<rparr>"

definition S2_world :: world where
  "S2_world = S1_world
     \<lparr>node_heap := (node_heap S1_world)
        (1 := Some (S1_node 1 False None (Some 5)),
         2 := Some (S1_node 2 False (Some 7) None)),
      edge_heap := (edge_heap S1_world)(6 := None)\<rparr>"

definition S2_alloc_world :: world where
  "S2_alloc_world = S2_world
     \<lparr>node_heap := (node_heap S2_world)(10 := Some (S1_node 0 False None None)),
      edge_heap := (edge_heap S2_world)(9 := Some (S1_edge 0 1 3)),
      next_addr := 11\<rparr>"

text \<open>
  Scenario S4 of the spec: a node with the empty label in a new graph is relabelled to the
  list of the one atom 42. The result is the node handle, the class lists of all nine
  classes in the order of the enumeration, and the class recorded in the node.
  \<open>S4_graph\<close> and \<open>S4_world\<close> are the state before the relabelling (\<open>S4_added\<close> below).
\<close>

definition S4 :: "(addr \<times> addr list list \<times> LabelClass) prog" where
  "S4 = bnd newGraph (\<lambda>g.
        bnd (add_node g False NullLabel) (\<lambda>(n0, g).
        bnd (relabelNode g n0 (label_of [INTEGER_CONSTANT 42] False) True False) (\<lambda>g.
        bnd (read_node (Some n0)) (\<lambda>n.
        ret (n0,
             map (getNodesByLabel g) [EMPTY_L, INT_L, STRING_L, ATOMIC_VAR_L, LIST2_L, LIST3_L,
               LIST4_L, LIST5_L, LISTVAR_L],
             label_class_n n)))))"

definition S4_graph :: Graph where
  "S4_graph =
     \<lparr>nodes = [Some 0, None, None, None, None, None, None, None],
      edges = [None, None, None, None, None, None, None, None],
      free_node_slots = [], free_edge_slots = [],
      next_node_index = 1, next_edge_index = 0,
      number_of_nodes = 1, number_of_edges = 0,
      nodes_by_label = (\<lambda>_. None)(EMPTY_L := Some [0]),
      edges_by_label = (\<lambda>_. None),
      root_nodes = []\<rparr>"

definition S4_world :: world where
  "S4_world = world0
     \<lparr>node_heap := (\<lambda>_. None)(0 := Some (S1_node 0 False None None)), next_addr := 1\<rparr>"

text \<open>A label of six integer atoms, one more than the maximum.\<close>

definition six_label :: LabelPtr where
  "six_label = label_of [INTEGER_CONSTANT 1, INTEGER_CONSTANT 2, INTEGER_CONSTANT 3,
     INTEGER_CONSTANT 4, INTEGER_CONSTANT 5, INTEGER_CONSTANT 6] False"

section \<open>Running programs on concrete worlds\<close>

lemma bnd_apply: "bnd m f w = cont (m w) f"
  by (simp add: bnd_def cont_def)

lemma cont_Inl: "cont (Inl e) f = Inl e"
  by (simp add: cont_def)

lemma cont_Inr: "cont (Inr (x, w)) f = f x w"
  by (simp add: cont_def)

text \<open>
  Two congruence rules keep the simplifier out of a continuation until the first part of
  the program has produced its result.
\<close>

lemma cont_cong: "r = r' \<Longrightarrow> cont r f = cont r' f"
  by simp

lemma bnd_cong: "bnd m f = bnd m f"
  by simp

lemma replicate_numeral: "replicate (numeral k) x = x # replicate (pred_numeral k) x"
  by (simp add: numeral_eq_Suc)

lemma list_update_numeral: "(x # xs)[numeral k := y] = x # xs[pred_numeral k := y]"
  by (simp add: numeral_eq_Suc)

lemma upto_int_0: "upto_int 0 = []"
  by (simp add: upto_int_def)

lemma upto_int_1: "upto_int 1 = [0]"
  by (simp add: upto_int_def)

lemma upto_int_pos: "0 < n \<Longrightarrow> upto_int n = upto_int (n - 1) @ [n - 1]"
proof -
  assume pos: "0 < n"
  then have "nat n = Suc (nat (n - 1))" by arith
  moreover have "int (nat (n - 1)) = n - 1" using pos by simp
  ultimately show ?thesis by (simp add: upto_int_def)
qed

lemma upto_int_numeral: "upto_int (numeral k) = upto_int (numeral k - 1) @ [numeral k - 1]"
  by (rule upto_int_pos) simp

lemmas run = bnd_apply cont_Inl cont_Inr ret_def crash_def print_to_log_def Let_def

lemmas heap_ops = malloc_node_def malloc_edge_def read_node_def read_edge_def write_node_def
  write_edge_def store_node_def deref_node_def deref_edge_def free_node_mem_def
  free_edge_mem_def array_get_def array_set_def pop_def push_def g_hash_table_lookup_def

lemmas build_ops = newGraph_def add_node_def add_edge_def newNode_def newEdge_def
  addNode_def addEdge_def

lemmas query_ops = getNode_def getEdge_def getOutEdge_def getInEdge_def getSource_def
  getTarget_def getNodesByLabel_def getEdgesByLabel_def

lemmas arrays = replicate_numeral list_update_numeral upto_int_0 upto_int_1 upto_int_numeral

lemmas S1_defs = S1_graph_def S1_world_def world0_def S1_node_def S1_edge_def

lemmas spec_inv_defs = spec_invariants_def spec_inv1_def spec_inv2_def spec_inv3_def
  spec_inv4_def spec_inv5_def spec_inv6_def spec_inv7_def slots_below_def occupied_def
  all_classes_def getRootNodes_def

lemmas observe_defs = observe_def view_node_def view_edge_def node_index_of_def
  edge_index_of_def all_classes_def getRootNodes_def

lemmas copy_ops = copyGraph_def restoreGraph_def freeGraph_def freeNode_def freeEdge_def
  copyLabel_def removeEdge_def removeNode_def

lemma S1_result: "S1 world0 = Inr (S1_graph, S1_world)"
  by (simp add: S1_def S1_defs build_ops heap_ops run arrays fun_eq_iff
      cong: cont_cong bnd_cong)

section \<open>The effect of addNode and addEdge\<close>

lemma S2_removed: "removeEdge S1_graph 1 S1_world = Inr (S2_graph, S2_world)"
  by (simp add: S2_graph_def S2_world_def S1_defs removeEdge_def query_ops heap_ops run arrays fun_eq_iff
      cong: cont_cong bnd_cong)

lemma addNode_effect:
  assumes "node_heap w node = Some n"
    and "has_room (free_node_slots graph) (next_node_index graph) (length (nodes graph))"
  shows "\<exists>graph' w'. addNode graph node w = Inr (graph', w') \<and>
     (case free_node_slots graph of
        s # st \<Rightarrow>
          nodes graph' = (nodes graph)[nat s := Some node] \<and>
          node_heap w' node = Some (n\<lparr>index_n := s\<rparr>) \<and>
          free_node_slots graph' = st \<and> next_node_index graph' = next_node_index graph
      | [] \<Rightarrow>
          nodes graph' = (nodes graph)[nat (next_node_index graph) := Some node] \<and>
          node_heap w' node = Some (n\<lparr>index_n := next_node_index graph\<rparr>) \<and>
          free_node_slots graph' = [] \<and>
          next_node_index graph' = next_node_index graph + 1) \<and>
     getNodesByLabel graph' (label_class_n n) = node # getNodesByLabel graph (label_class_n n) \<and>
     log_w w' = log_w w"
  using assms
  by (cases "free_node_slots graph")
     (simp_all add: has_room_def addNode_def getNodesByLabel_def heap_ops run
        cong: cont_cong bnd_cong)


lemma addEdge_effect:
  assumes "edge_heap w edge = Some e"
    and "has_room (free_edge_slots graph) (next_edge_index graph) (length (edges graph))"
    and "source e = Some sa" and "node_heap w sa = Some sn"
    and "has_room (free_out_edge_slots sn) (next_out_edge_index sn) (length (out_edges sn))"
    and "target e = Some ta" and "node_heap w ta = Some tn"
    and "has_room (free_in_edge_slots tn) (next_in_edge_index tn) (length (in_edges tn))"
  shows "\<exists>graph' w'. addEdge graph edge w = Inr (graph', w') \<and>
     (case free_edge_slots graph of
        s # st \<Rightarrow>
          edges graph' = (edges graph)[nat s := Some edge] \<and>
          edge_heap w' edge = Some (e\<lparr>index_e := s\<rparr>) \<and>
          free_edge_slots graph' = st \<and> next_edge_index graph' = next_edge_index graph
      | [] \<Rightarrow>
          edges graph' = (edges graph)[nat (next_edge_index graph) := Some edge] \<and>
          edge_heap w' edge = Some (e\<lparr>index_e := next_edge_index graph\<rparr>) \<and>
          free_edge_slots graph' = [] \<and>
          next_edge_index graph' = next_edge_index graph + 1) \<and>
     getEdgesByLabel graph' (label_class_e e) = edge # getEdgesByLabel graph (label_class_e e) \<and>
     log_w w' = log_w w"
  using assms
  by (cases "free_edge_slots graph"; cases "free_out_edge_slots sn";
      cases "free_in_edge_slots tn"; cases "sa = ta")
     (simp_all add: has_room_def addEdge_def getEdgesByLabel_def heap_ops run
        cong: cont_cong bnd_cong)


lemma S4_added:
  "bnd newGraph (\<lambda>g. add_node g False NullLabel) world0 = Inr ((0, S4_graph), S4_world)"
  by (simp add: S4_graph_def S4_world_def S1_defs build_ops heap_ops run arrays fun_eq_iff
      cong: cont_cong bnd_cong)

section \<open>Label classes in any world\<close>

text \<open>
  The class that \<open>getLabelClass\<close> returns and the messages it writes depend on the label
  only: in every world it returns the same class and appends the same messages.
\<close>

lemma getLabelClass_any_world:
  assumes "getLabelClass p w = Inr (c, w')"
  shows "\<exists>ds. \<forall>v. getLabelClass p v = Inr (c, v\<lparr>log_w := log_w v @ ds\<rparr>)"
proof (cases p)
  case NullLabel
  with assms show ?thesis
    by (simp add: getLabelClass_def deref_label_def run)
next
  case BlankLabel
  with assms show ?thesis
    by (auto simp add: getLabelClass_def deref_label_def blank_label_def run
        intro: exI [of _ "[]"])
next
  case (HeapLabel l)
  show ?thesis
  proof (cases "has_list_variable l \<or> list_l l = [] \<or> list_length l \<in> {2, 3, 4, 5}")
    case True
    from True assms HeapLabel have "\<forall>v. getLabelClass p v = Inr (c, v\<lparr>log_w := log_w v @ []\<rparr>)"
      by (simp add: getLabelClass_def deref_label_def run split: if_splits)
    then show ?thesis ..
  next
    case False
    then have rest: "\<not> has_list_variable l" "list_l l \<noteq> []" "list_length l \<noteq> 2"
      "list_length l \<noteq> 3" "list_length l \<noteq> 4" "list_length l \<noteq> 5" by auto
    show ?thesis
    proof (cases "hd (list_l l)")
      case None
      with assms HeapLabel rest show ?thesis
        by (simp add: getLabelClass_def deref_label_def run split: if_splits)
    next
      case (Some atom)
      let ?ds = "(if 1 < list_length l then [GetLabelClass_exceeds_maximum] else []) @
        (case atom of VARIABLE _ \<Rightarrow> [] | INTEGER_CONSTANT _ \<Rightarrow> [] | NEG _ \<Rightarrow> []
         | CHARACTER_CONSTANT _ \<Rightarrow> [] | STRING_CONSTANT _ \<Rightarrow> [] | CONCAT _ _ \<Rightarrow> []
         | _ \<Rightarrow> [GetLabelClass_unexpected_type])"
      from Some assms HeapLabel rest
      have "\<forall>v. getLabelClass p v = Inr (c, v\<lparr>log_w := log_w v @ ?ds\<rparr>)"
        by (cases atom; cases "1 < list_length l")
           (simp_all add: getLabelClass_def deref_label_def run)
      then show ?thesis ..
    qed
  qed
qed

lemma long_label_logged:
  assumes "\<not> has_list_variable l" and "list_length l > 5" and "list_l l = Some atom # rest"
  shows "\<exists>c ds. \<forall>v. getLabelClass (HeapLabel l) v
           = Inr (c, v\<lparr>log_w := log_w v @ GetLabelClass_exceeds_maximum # ds\<rparr>)"
proof -
  let ?c = "case atom of VARIABLE _ \<Rightarrow> ATOMIC_VAR_L | INTEGER_CONSTANT _ \<Rightarrow> INT_L
     | NEG _ \<Rightarrow> INT_L | CHARACTER_CONSTANT _ \<Rightarrow> STRING_L | STRING_CONSTANT _ \<Rightarrow> STRING_L
     | CONCAT _ _ \<Rightarrow> STRING_L | _ \<Rightarrow> LISTVAR_L"
  let ?ds = "case atom of VARIABLE _ \<Rightarrow> [] | INTEGER_CONSTANT _ \<Rightarrow> [] | NEG _ \<Rightarrow> []
     | CHARACTER_CONSTANT _ \<Rightarrow> [] | STRING_CONSTANT _ \<Rightarrow> [] | CONCAT _ _ \<Rightarrow> []
     | _ \<Rightarrow> [GetLabelClass_unexpected_type]"
  from assms have "\<forall>v. getLabelClass (HeapLabel l) v
      = Inr (?c, v\<lparr>log_w := log_w v @ GetLabelClass_exceeds_maximum # ?ds\<rparr>)"
    by (cases atom) (simp_all add: getLabelClass_def deref_label_def run)
  then show ?thesis by blast
qed

lemma remove1_once: "count_list xs a \<le> 1 \<Longrightarrow> a \<notin> set (remove1 a xs)"
  by (induction xs) (auto simp add: count_list_0_iff)


section \<open>The node store of a graph built by the public operations\<close>

text \<open>
  Rules for \<open>post\<close>, one for each primitive of the model, then the invariant \<open>node_inv\<close>
  through \<open>newGraph\<close>, \<open>add_node\<close>, \<open>removeNode\<close> and \<open>relabelNode\<close>, and the frame
  \<open>node_frame\<close> for \<open>add_edge\<close>, \<open>removeEdge\<close> and \<open>relabelEdge\<close>.
\<close>

lemma postD: "post m w Q \<Longrightarrow> m w = Inr (x, w') \<Longrightarrow> Q x w'"
  by (simp add: post_def)

lemma post_bnd: "post m w (\<lambda>x w'. post (f x) w' Q) \<Longrightarrow> post (bnd m f) w Q"
  by (simp add: post_def bnd_def split: sum.splits prod.splits)

lemma post_ret: "Q x w \<Longrightarrow> post (ret x) w Q"
  by (simp add: post_def ret_def)

lemma post_crash: "post (crash e) w Q"
  by (simp add: post_def crash_def)

lemma post_print_to_log: "Q () (w\<lparr>log_w := log_w w @ [d]\<rparr>) \<Longrightarrow> post (print_to_log d) w Q"
  by (simp add: post_def print_to_log_def)

lemma post_array_get:
  "(0 \<le> i \<Longrightarrow> i < int (length xs) \<Longrightarrow> Q (xs ! nat i) w) \<Longrightarrow> post (array_get xs i) w Q"
  by (simp add: post_def array_get_def ret_def crash_def)

lemma post_array_set:
  "(0 \<le> i \<Longrightarrow> i < int (length xs) \<Longrightarrow> Q (xs[nat i := v]) w) \<Longrightarrow> post (array_set xs i v) w Q"
  by (simp add: post_def array_set_def ret_def crash_def)

lemma post_read_node:
  "(\<And>a n. p = Some a \<Longrightarrow> node_heap w a = Some n \<Longrightarrow> Q n w) \<Longrightarrow> post (read_node p) w Q"
  by (simp add: post_def read_node_def split: option.splits)

lemma post_read_edge:
  "(\<And>a e. p = Some a \<Longrightarrow> edge_heap w a = Some e \<Longrightarrow> Q e w) \<Longrightarrow> post (read_edge p) w Q"
  by (simp add: post_def read_edge_def split: option.splits)

lemma post_deref_node:
  "(\<And>a n. p = Some a \<Longrightarrow> node_heap w a = Some n \<Longrightarrow> Q (a, n) w) \<Longrightarrow> post (deref_node p) w Q"
  by (simp add: post_def deref_node_def read_node_def bnd_def ret_def crash_def split: option.splits)

lemma post_deref_edge:
  "(\<And>a e. p = Some a \<Longrightarrow> edge_heap w a = Some e \<Longrightarrow> Q (a, e) w) \<Longrightarrow> post (deref_edge p) w Q"
  by (simp add: post_def deref_edge_def read_edge_def bnd_def ret_def crash_def split: option.splits)

lemma post_write_node:
  "Q () (w\<lparr>node_heap := (node_heap w)(a := Some n)\<rparr>) \<Longrightarrow> post (write_node a n) w Q"
  by (simp add: post_def write_node_def)

lemma post_write_edge:
  "Q () (w\<lparr>edge_heap := (edge_heap w)(a := Some e)\<rparr>) \<Longrightarrow> post (write_edge a e) w Q"
  by (simp add: post_def write_edge_def)

lemma post_store_node:
  "(\<And>a. p = Some a \<Longrightarrow> Q () (w\<lparr>node_heap := (node_heap w)(a := Some n)\<rparr>))
   \<Longrightarrow> post (store_node p n) w Q"
  by (simp add: post_def store_node_def write_node_def crash_def split: option.splits)

lemma post_malloc_node:
  "Q (next_addr w) (w\<lparr>node_heap := (node_heap w)(next_addr w := Some n),
      next_addr := next_addr w + 1\<rparr>) \<Longrightarrow> post (malloc_node n) w Q"
  by (simp add: post_def malloc_node_def)

lemma post_malloc_edge:
  "Q (next_addr w) (w\<lparr>edge_heap := (edge_heap w)(next_addr w := Some e),
      next_addr := next_addr w + 1\<rparr>) \<Longrightarrow> post (malloc_edge e) w Q"
  by (simp add: post_def malloc_edge_def)

lemma post_free_node_mem:
  "Q () (w\<lparr>node_heap := (node_heap w)(a := None)\<rparr>) \<Longrightarrow> post (free_node_mem a) w Q"
  by (simp add: post_def free_node_mem_def)

lemma post_free_edge_mem:
  "Q () (w\<lparr>edge_heap := (edge_heap w)(a := None)\<rparr>) \<Longrightarrow> post (free_edge_mem a) w Q"
  by (simp add: post_def free_edge_mem_def)

lemma case_pop:
  "(case pop st of (None, x) \<Rightarrow> A x | (Some s, r) \<Rightarrow> B s r)
     = (case st of [] \<Rightarrow> A [] | s # r \<Rightarrow> B s r)"
  by (cases st) (simp_all add: pop_def)

lemma post_case_list:
  "(st = [] \<Longrightarrow> post A w Q) \<Longrightarrow> (\<And>s r. st = s # r \<Longrightarrow> post (B s r) w Q)
   \<Longrightarrow> post (case st of [] \<Rightarrow> A | s # r \<Rightarrow> B s r) w Q"
  by (cases st) simp_all

lemma post_case_option:
  "(p = None \<Longrightarrow> post A w Q) \<Longrightarrow> (\<And>a. p = Some a \<Longrightarrow> post (B a) w Q)
   \<Longrightarrow> post (case p of None \<Rightarrow> A | Some a \<Rightarrow> B a) w Q"
  by (cases p) simp_all

lemma post_if:
  "(b \<Longrightarrow> post m w Q) \<Longrightarrow> (\<not> b \<Longrightarrow> post m' w Q) \<Longrightarrow> post (if b then m else m') w Q"
  by simp

lemmas post_rules = post_bnd post_ret post_crash post_print_to_log post_array_get post_array_set
  post_read_node post_read_edge post_deref_node post_deref_edge post_write_node post_write_edge
  post_store_node post_malloc_node post_malloc_edge post_free_node_mem post_free_edge_mem post_if post_case_list post_case_option

lemma newGraph_node_inv: "post newGraph w (\<lambda>g w'. node_inv g w')"
  by (auto simp add: post_def newGraph_def node_inv_def live_node_def getNodesByLabel_def
      getRootNodes_def g_hash_table_lookup_def)

lemma live_node_nth: "live_node g a = (\<exists>i < length (nodes g). nodes g ! i = Some a)"
  by (auto simp add: live_node_def in_set_conv_nth)

lemma filter_length_fill:
  "i < length xs \<Longrightarrow> \<not> P (xs ! i) \<Longrightarrow> P v
   \<Longrightarrow> length (filter P (xs[i := v])) = Suc (length (filter P xs))"
proof (induction xs arbitrary: i)
  case Nil
  then show ?case by simp
next
  case (Cons x xs)
  then show ?case by (cases i) simp_all
qed

lemma filter_length_clear:
  "i < length xs \<Longrightarrow> P (xs ! i) \<Longrightarrow> \<not> P v
   \<Longrightarrow> Suc (length (filter P (xs[i := v]))) = length (filter P xs)"
proof (induction xs arbitrary: i)
  case Nil
  then show ?case by simp
next
  case (Cons x xs)
  then show ?case by (cases i) simp_all
qed

lemma count_list_remove1:
  "count_list (remove1 a xs) b =
     (if a = b \<and> a \<in> set xs then count_list xs b - 1 else count_list xs b)"
  by (induction xs) (auto simp add: count_list_0_iff)

lemma lookup_upd:
  "g_hash_table_lookup (t(c := v)) c' =
     (if c' = c then (case v of None \<Rightarrow> [] | Some l \<Rightarrow> l) else g_hash_table_lookup t c')"
  by (simp add: g_hash_table_lookup_def)

lemma set_update_fill:
  "s < length xs \<Longrightarrow> xs ! s = None \<Longrightarrow>
   (Some b \<in> set (xs[s := Some a])) = (b = a \<or> Some b \<in> set xs)"
  by (auto simp add: in_set_conv_nth nth_list_update) (metis option.distinct(1))

lemma node_invI:
  assumes "0 \<le> next_node_index g" and "next_node_index g \<le> int (length (nodes g))"
    and "\<And>i. nat (next_node_index g) \<le> i \<Longrightarrow> i < length (nodes g) \<Longrightarrow> nodes g ! i = None"
    and "distinct (free_node_slots g)"
    and "\<And>s. s \<in> set (free_node_slots g)
          \<Longrightarrow> 0 \<le> s \<and> s < next_node_index g \<and> nodes g ! nat s = None"
    and "\<And>i. int i < next_node_index g \<Longrightarrow> nodes g ! i = None
          \<Longrightarrow> int i \<in> set (free_node_slots g)"
    and "\<And>a. live_node g a \<Longrightarrow> a < next_addr w"
    and "\<And>i a. i < length (nodes g) \<Longrightarrow> nodes g ! i = Some a
          \<Longrightarrow> map_option index_n (node_heap w a) = Some (int i)"
    and "number_of_nodes g = int (length (filter (\<lambda>p. p \<noteq> None) (nodes g)))"
    and "\<And>c a. count_list (getNodesByLabel g c) a =
          (if live_node g a \<and> map_option label_class_n (node_heap w a) = Some c
           then 1 else 0)"
    and "\<And>a. count_list (getRootNodes g) a =
          (if live_node g a \<and> map_option root_n (node_heap w a) = Some True then 1 else 0)"
  shows "node_inv g w"
  unfolding node_inv_def using assms by blast

lemma node_invD:
  assumes "node_inv g w"
  shows "0 \<le> next_node_index g" and "next_node_index g \<le> int (length (nodes g))"
    and "\<And>i. nat (next_node_index g) \<le> i \<Longrightarrow> i < length (nodes g) \<Longrightarrow> nodes g ! i = None"
    and "distinct (free_node_slots g)"
    and "\<And>s. s \<in> set (free_node_slots g)
          \<Longrightarrow> 0 \<le> s \<and> s < next_node_index g \<and> nodes g ! nat s = None"
    and "\<And>i. int i < next_node_index g \<Longrightarrow> nodes g ! i = None
          \<Longrightarrow> int i \<in> set (free_node_slots g)"
    and "\<And>a. live_node g a \<Longrightarrow> a < next_addr w"
    and "\<And>i a. i < length (nodes g) \<Longrightarrow> nodes g ! i = Some a
          \<Longrightarrow> map_option index_n (node_heap w a) = Some (int i)"
    and "number_of_nodes g = int (length (filter (\<lambda>p. p \<noteq> None) (nodes g)))"
    and "\<And>c a. count_list (getNodesByLabel g c) a =
          (if live_node g a \<and> map_option label_class_n (node_heap w a) = Some c
           then 1 else 0)"
    and "\<And>a. count_list (getRootNodes g) a =
          (if live_node g a \<and> map_option root_n (node_heap w a) = Some True then 1 else 0)"
  using assms unfolding node_inv_def by blast+

lemma node_inv_insert:
  assumes inv: "node_inv g w" and fresh: "\<not> live_node g a" and below: "a < next_addr w"
    and n: "node_heap w a = Some n"
    and slot: "s < length (nodes g)" "nodes g ! s = None" "int s < h'"
    and h': "next_node_index g \<le> h'" "h' \<le> int (length (nodes g))"
    and st': "distinct st'"
      "\<And>x. x \<in> set st' \<Longrightarrow> 0 \<le> x \<and> x < h' \<and> x \<noteq> int s \<and> nodes g ! nat x = None"
      "\<And>i. int i < h' \<Longrightarrow> i \<noteq> s \<Longrightarrow> nodes g ! i = None \<Longrightarrow> int i \<in> set st'"
    and above: "\<And>i. nat h' \<le> i \<Longrightarrow> i < length (nodes g) \<Longrightarrow> nodes g ! i = None"
    and g': "nodes g' = (nodes g)[s := Some a]" "free_node_slots g' = st'"
      "next_node_index g' = h'"
      "nodes_by_label g' = (nodes_by_label g)(label_class_n n :=
         Some (a # g_hash_table_lookup (nodes_by_label g) (label_class_n n)))"
      "root_nodes g' = (if root_n n then a # root_nodes g else root_nodes g)"
      "number_of_nodes g' = number_of_nodes g + 1"
    and w': "node_heap w' = (node_heap w)(a := Some (n\<lparr>index_n := int s\<rparr>))"
      "next_addr w \<le> next_addr w'"
  shows "node_inv g' w'"
proof (rule node_invI)
  note I = node_invD [OF inv]
  note [simp] = g' w'(1)
  have live: "\<And>b. live_node g' b = (b = a \<or> live_node g b)"
    using slot by (simp add: set_update_fill live_node_def)
  have not_a: "\<And>i. i < length (nodes g) \<Longrightarrow> nodes g ! i \<noteq> Some a"
    using fresh by (auto simp add: live_node_nth)
  show "0 \<le> next_node_index g'" using I(1) h' by simp
  show "next_node_index g' \<le> int (length (nodes g'))" using h' by simp
  show "nodes g' ! i = None" if "nat (next_node_index g') \<le> i" "i < length (nodes g')" for i
    using that above [of i] slot by (simp add: nth_list_update)
  show "distinct (free_node_slots g')" using st' by simp
  show "0 \<le> x \<and> x < next_node_index g' \<and> nodes g' ! nat x = None"
    if "x \<in> set (free_node_slots g')" for x
    using that st'(2) [of x] by (auto simp add: nth_list_update)
  show "int i \<in> set (free_node_slots g')"
    if "int i < next_node_index g'" "nodes g' ! i = None" for i
    using that st'(3) [of i] slot by (cases "i = s") (simp_all add: nth_list_update)
  show "b < next_addr w'" if "live_node g' b" for b
    using that I(7) [of b] below w'(2) by (auto simp add: live)
  show "map_option index_n (node_heap w' b) = Some (int i)"
    if "i < length (nodes g')" "nodes g' ! i = Some b" for i b
    using that I(8) [of i b] not_a [of i] slot by (cases "i = s") (auto simp add: nth_list_update)
  show "number_of_nodes g' = int (length (filter (\<lambda>p. p \<noteq> None) (nodes g')))"
    using I(9) slot by (simp add: filter_length_fill)
  show "count_list (getNodesByLabel g' c) b =
      (if live_node g' b \<and> map_option label_class_n (node_heap w' b) = Some c then 1 else 0)"
    for c b
    using I(10) [of c b] I(10) [of "label_class_n n" a] fresh n
    by (auto simp add: live getNodesByLabel_def lookup_upd)
  show "count_list (getRootNodes g') b =
      (if live_node g' b \<and> map_option root_n (node_heap w' b) = Some True then 1 else 0)"
    for b
    using I(11) [of b] I(11) [of a] fresh n
    by (auto simp add: live getRootNodes_def)
qed

lemma node_inv_frame:
  assumes inv: "node_inv g w" and fr: "node_frame g w g' w'"
  shows "node_inv g' w'"
proof (rule node_invI)
  note I = node_invD [OF inv]
  from fr have same [simp]: "nodes g' = nodes g" "free_node_slots g' = free_node_slots g"
    "next_node_index g' = next_node_index g" "nodes_by_label g' = nodes_by_label g"
    "root_nodes g' = root_nodes g" "number_of_nodes g' = number_of_nodes g"
    and mono: "next_addr w \<le> next_addr w'"
    and heap: "\<And>a. a < next_addr w \<Longrightarrow>
         map_option label_class_n (node_heap w' a) = map_option label_class_n (node_heap w a) \<and>
         map_option root_n (node_heap w' a) = map_option root_n (node_heap w a) \<and>
         map_option index_n (node_heap w' a) = map_option index_n (node_heap w a)"
    by (simp_all add: node_frame_def)
  have live [simp]: "\<And>a. live_node g' a = live_node g a" by (simp add: live_node_def)
  show "0 \<le> next_node_index g'" using I(1) by simp
  show "next_node_index g' \<le> int (length (nodes g'))" using I(2) by simp
  show "nodes g' ! i = None" if "nat (next_node_index g') \<le> i" "i < length (nodes g')" for i
    using that I(3) [of i] by simp
  show "distinct (free_node_slots g')" using I(4) by simp
  show "0 \<le> s \<and> s < next_node_index g' \<and> nodes g' ! nat s = None"
    if "s \<in> set (free_node_slots g')" for s
    using that I(5) [of s] by simp
  show "int i \<in> set (free_node_slots g')"
    if "int i < next_node_index g'" "nodes g' ! i = None" for i
    using that I(6) [of i] by simp
  show "a < next_addr w'" if "live_node g' a" for a
    using that I(7) [of a] mono by simp
  show "map_option index_n (node_heap w' a) = Some (int i)"
    if "i < length (nodes g')" "nodes g' ! i = Some a" for i a
  proof -
    from that have "live_node g a" by (auto simp add: live_node_nth)
    with I(7) [of a] heap [of a] I(8) [of i a] that show ?thesis by simp
  qed
  show "number_of_nodes g' = int (length (filter (\<lambda>p. p \<noteq> None) (nodes g')))"
    using I(9) by simp
  show "count_list (getNodesByLabel g' c) a =
      (if live_node g' a \<and> map_option label_class_n (node_heap w' a) = Some c then 1 else 0)"
    for c a
  proof (cases "live_node g a")
    case True
    with I(7) [of a] heap [of a]
    have "map_option label_class_n (node_heap w' a) = map_option label_class_n (node_heap w a)"
      by simp
    with I(10) [of c a] show ?thesis by (simp add: getNodesByLabel_def)
  next
    case False
    with I(10) [of c a] show ?thesis by (simp add: getNodesByLabel_def)
  qed
  show "count_list (getRootNodes g') a =
      (if live_node g' a \<and> map_option root_n (node_heap w' a) = Some True then 1 else 0)"
    for a
  proof (cases "live_node g a")
    case True
    with I(7) [of a] heap [of a]
    have "map_option root_n (node_heap w' a) = map_option root_n (node_heap w a)"
      by simp
    with I(11) [of a] show ?thesis by (simp add: getRootNodes_def)
  next
    case False
    with I(11) [of a] show ?thesis by (simp add: getRootNodes_def)
  qed
qed

lemma addNode_node_inv:
  assumes inv: "node_inv g w" and fresh: "\<not> live_node g a" and below: "a < next_addr w"
  shows "post (addNode g a) w (\<lambda>g' w'. node_inv g' w' \<and> live_node g' a)"
proof (cases "free_node_slots g")
  note I = node_invD [OF inv]
  let ?h = "next_node_index g"
  case Nil
  show ?thesis
    unfolding addNode_def
  proof (simp only: Nil case_pop list.case,
      (rule post_rules | simp only: prod.case Let_def)+, goal_cases)
    case (1 aa n)
    from 1 have n: "node_heap w a = Some n" by simp
    from 1 have slot: "nat ?h < length (nodes g)" "nodes g ! nat ?h = None"
      using I(3) [of "nat ?h"] by simp_all
    have st3: "int i \<in> set []" if "int i < ?h + 1" "i \<noteq> nat ?h" "nodes g ! i = None" for i
    proof -
      from that I(1) have "int i < ?h" by arith
      with that I(6) [of i] Nil show ?thesis by simp
    qed
    have ab: "nodes g ! i = None" if "nat (?h + 1) \<le> i" "i < length (nodes g)" for i
      using that I(3) [of i] by simp
    show ?case
      apply (rule conjI)
       apply (rule node_inv_insert [OF inv fresh below n slot _ _ _ _ _ st3 ab,
            where h' = "?h + 1"])
      using 1 slot Nil
                   apply (simp_all add: live_node_def set_update_memI)
      done
  qed
next
  note I = node_invD [OF inv]
  let ?h = "next_node_index g"
  case (Cons free_slot r)
  show ?thesis
    unfolding addNode_def
  proof (simp only: Cons case_pop list.case,
      (rule post_rules | simp only: prod.case Let_def)+, goal_cases)
    case (1 aa n)
    from 1 have n: "node_heap w a = Some n" by simp
    from Cons I(5) [of free_slot] have fs: "0 \<le> free_slot" "free_slot < ?h"
      "nodes g ! nat free_slot = None" by simp_all
    from fs I(2) have slot: "nat free_slot < length (nodes g)" by simp
    have st2: "0 \<le> x \<and> x < ?h \<and> x \<noteq> int (nat free_slot) \<and> nodes g ! nat x = None"
      if "x \<in> set r" for x
      using that I(4) I(5) [of x] Cons fs by auto
    have st3: "int i \<in> set r" if "int i < ?h" "i \<noteq> nat free_slot" "nodes g ! i = None" for i
      using that I(6) [of i] Cons by auto
    have ab: "nodes g ! i = None" if "nat ?h \<le> i" "i < length (nodes g)" for i
      using that I(3) [of i] by simp
    show ?case
      apply (rule conjI)
       apply (rule node_inv_insert [OF inv fresh below n slot fs(3) _ _ _ _ st2 st3 ab])
      using 1 slot fs I(2) I(4) Cons
                  apply (simp_all add: live_node_def set_update_memI)
      done
  qed
qed

lemma post_weaken: "post m w Q \<Longrightarrow> (\<And>x w'. Q x w' \<Longrightarrow> Q' x w') \<Longrightarrow> post m w Q'"
  by (auto simp add: post_def split: sum.splits)

lemma post_getLabelClass:
  assumes "\<And>c ds. Q c (w\<lparr>log_w := log_w w @ ds\<rparr>)"
  shows "post (getLabelClass p) w Q"
proof (cases "getLabelClass p w")
  case (Inl e)
  then show ?thesis by (simp add: post_def)
next
  case (Inr r)
  obtain c w' where r: "r = (c, w')" by (cases r)
  with Inr getLabelClass_any_world [of p w c w'] obtain ds
    where "getLabelClass p w = Inr (c, w\<lparr>log_w := log_w w @ ds\<rparr>)" by blast
  with assms [of c ds] show ?thesis by (simp add: post_def)
qed

lemma getLabelClass_log_only:
  assumes "getLabelClass p w = Inr (c, w')"
  shows "\<exists>ds. w' = w\<lparr>log_w := log_w w @ ds\<rparr>"
proof -
  from getLabelClass_any_world [OF assms] obtain ds
    where "getLabelClass p w = Inr (c, w\<lparr>log_w := log_w w @ ds\<rparr>)" by blast
  with assms show ?thesis by auto
qed

lemma newNode_post:
  "post (newNode root label) w (\<lambda>a w'. a = next_addr w \<and> next_addr w' = next_addr w + 1 \<and>
      (\<forall>b. b \<noteq> a \<longrightarrow> node_heap w' b = node_heap w b) \<and> edge_heap w' = edge_heap w)"
proof (cases "label = NullLabel")
  case True
  then show ?thesis
    by (simp add: post_def newNode_def bnd_def ret_def malloc_node_def)
next
  case False
  show ?thesis
  proof (cases "getLabelClass label w")
    case (Inl e)
    with False show ?thesis
      by (simp add: post_def newNode_def bnd_def)
  next
    case (Inr r)
    obtain c w1 where r: "r = (c, w1)" by (cases r)
    with Inr getLabelClass_log_only obtain ds where "w1 = w\<lparr>log_w := log_w w @ ds\<rparr>"
      by blast
    with False Inr r show ?thesis
      by (simp add: post_def newNode_def bnd_def ret_def malloc_node_def)
  qed
qed

lemma add_node_node_inv:
  assumes inv: "node_inv g w"
  shows "post (add_node g root label) w (\<lambda>(a, g') w'. node_inv g' w' \<and> live_node g' a)"
  unfolding add_node_def
proof (rule post_bnd, rule post_weaken [OF newNode_post], goal_cases)
  case (1 a w1)
  note I = node_invD [OF inv]
  from 1 have fr: "node_frame g w g w1"
    by (auto simp add: node_frame_def)
  have inv1: "node_inv g w1" by (rule node_inv_frame [OF inv fr])
  from 1 I(7) [of a] have fresh: "\<not> live_node g a" by auto
  from 1 have below: "a < next_addr w1" by simp
  show ?case
    by (rule post_bnd, rule post_weaken [OF addNode_node_inv [OF inv1 fresh below]])
       (simp add: post_ret)
qed

lemma node_inv_remove:
  assumes inv: "node_inv g w"
    and slot: "i < length (nodes g)" "nodes g ! i = Some a" and n: "node_heap w a = Some n"
    and g': "nodes g' = (nodes g)[i := None]"
      "\<And>c. getNodesByLabel g' c =
         (if c = label_class_n n then remove1 a (getNodesByLabel g c) else getNodesByLabel g c)"
      "root_nodes g' = (if root_n n then remove1 a (root_nodes g) else root_nodes g)"
      "number_of_nodes g' = number_of_nodes g - 1"
    and w': "node_heap w' = (node_heap w)(a := None)" "next_addr w \<le> next_addr w'"
    and slots: "0 \<le> next_node_index g'" "next_node_index g' \<le> int (length (nodes g'))"
      "\<And>j. nat (next_node_index g') \<le> j \<Longrightarrow> j < length (nodes g') \<Longrightarrow> nodes g' ! j = None"
      "distinct (free_node_slots g')"
      "\<And>s. s \<in> set (free_node_slots g')
          \<Longrightarrow> 0 \<le> s \<and> s < next_node_index g' \<and> nodes g' ! nat s = None"
      "\<And>j. int j < next_node_index g' \<Longrightarrow> nodes g' ! j = None
          \<Longrightarrow> int j \<in> set (free_node_slots g')"
  shows "node_inv g' w'"
proof (rule node_invI)
  note I = node_invD [OF inv]
  have uniq: "j = i" if "j < length (nodes g)" "nodes g ! j = Some a" for j
    using I(8) [of j a] I(8) [of i a] that slot by simp
  have live: "live_node g' b = (live_node g b \<and> b \<noteq> a)" for b
  proof
    assume "live_node g' b"
    then obtain j where j: "j < length (nodes g)" "(nodes g)[i := None] ! j = Some b"
      by (auto simp add: live_node_nth g'(1))
    then have "j \<noteq> i" using slot by auto
    with j have "nodes g ! j = Some b" by simp
    with j uniq [of j] \<open>j \<noteq> i\<close> show "live_node g b \<and> b \<noteq> a"
      by (auto simp add: live_node_nth)
  next
    assume "live_node g b \<and> b \<noteq> a"
    then obtain j where j: "j < length (nodes g)" "nodes g ! j = Some b" "b \<noteq> a"
      by (auto simp add: live_node_nth)
    with slot have "j \<noteq> i" by auto
    with j show "live_node g' b" by (auto simp add: live_node_nth g'(1))
  qed
  have live_a: "live_node g a" using slot by (auto simp add: live_node_nth)
  show "0 \<le> next_node_index g'" by (rule slots)
  show "next_node_index g' \<le> int (length (nodes g'))" by (rule slots)
  show "nodes g' ! j = None" if "nat (next_node_index g') \<le> j" "j < length (nodes g')" for j
    using that by (rule slots(3))
  show "distinct (free_node_slots g')" by (rule slots)
  show "0 \<le> s \<and> s < next_node_index g' \<and> nodes g' ! nat s = None"
    if "s \<in> set (free_node_slots g')" for s
    using that by (rule slots(5))
  show "int j \<in> set (free_node_slots g')"
    if "int j < next_node_index g'" "nodes g' ! j = None" for j
    using that by (rule slots(6))
  show "b < next_addr w'" if "live_node g' b" for b
    using that I(7) [of b] w'(2) by (simp add: live)
  show "map_option index_n (node_heap w' b) = Some (int j)"
    if "j < length (nodes g')" "nodes g' ! j = Some b" for j b
  proof -
    from that have "j \<noteq> i" using slot by (auto simp add: g'(1))
    with that have old: "j < length (nodes g)" "nodes g ! j = Some b" by (simp_all add: g'(1))
    with uniq [of j] \<open>j \<noteq> i\<close> have "b \<noteq> a" by auto
    with I(8) [OF old] show ?thesis by (simp add: w'(1))
  qed
  show "number_of_nodes g' = int (length (filter (\<lambda>p. p \<noteq> None) (nodes g')))"
    using I(9) slot filter_length_clear [of i "nodes g" "\<lambda>p. p \<noteq> None" None]
    by (simp add: g')
  show "count_list (getNodesByLabel g' c) b =
      (if live_node g' b \<and> map_option label_class_n (node_heap w' b) = Some c then 1 else 0)"
    for c b
  proof (cases "b = a")
    case True
    from I(10) [of c a] live_a n
    have cnt: "count_list (getNodesByLabel g c) a = (if c = label_class_n n then 1 else 0)"
      by simp
    then have "a \<in> set (getNodesByLabel g c)" if "c = label_class_n n"
      using that count_list_0_iff [of "getNodesByLabel g c" a] by auto
    with True cnt show ?thesis
      by (cases "c = label_class_n n") (simp_all add: live g'(2) count_list_remove1)
  next
    case False
    with I(10) [of c b] show ?thesis
      by (auto simp add: live g'(2) w'(1) count_list_remove1)
  qed
  show "count_list (getRootNodes g') b =
      (if live_node g' b \<and> map_option root_n (node_heap w' b) = Some True then 1 else 0)"
    for b
  proof (cases "b = a")
    case True
    from I(11) [of a] live_a n
    have cnt: "count_list (root_nodes g) a = (if root_n n then 1 else 0)"
      by (simp add: getRootNodes_def)
    then have "a \<in> set (root_nodes g)" if "root_n n"
      using that count_list_0_iff [of "root_nodes g" a] by auto
    with True cnt show ?thesis
      by (cases "root_n n") (simp_all add: live g'(3) getRootNodes_def count_list_remove1)
  next
    case False
    with I(11) [of b] show ?thesis
      by (auto simp add: live g'(3) w'(1) getRootNodes_def count_list_remove1)
  qed
qed

lemma node_inv_log: "node_inv g w \<Longrightarrow> node_inv g (w\<lparr>log_w := l\<rparr>)"
  by (erule node_inv_frame) (simp add: node_frame_def)

lemma removeNode_node_inv:
  assumes inv: "node_inv g w"
  shows "post (removeNode g index) w (\<lambda>g' w'. node_inv g' w')"
  unfolding removeNode_def getNode_def
proof ((rule post_rules | simp only: prod.case Let_def | (simp add: inv node_inv_log; fail))+,
    goal_cases)
  case (1 a n)
  note I = node_invD [OF inv]
  let ?h = "next_node_index g"
  from 1 have idx: "0 \<le> index" "nat index < length (nodes g)" "nodes g ! nat index = Some a"
    and n: "node_heap w a = Some n"
    by simp_all
  from idx I(3) [of "nat index"] have below: "index < ?h" by (cases "index < ?h") auto
  have not_free: "index \<notin> set (free_node_slots g)"
    using I(5) [of index] idx by auto
  show ?case
  proof (rule node_inv_remove [OF inv idx(2) idx(3) n], goal_cases)
    case 1
    then show ?case by (simp add: push_def)
  next
    case (2 c)
    then show ?case by (simp add: getNodesByLabel_def lookup_upd push_def)
  next
    case 3
    then show ?case by (simp add: push_def)
  next
    case 4
    then show ?case by (simp add: push_def)
  next
    case 5
    then show ?case by simp
  next
    case 6
    then show ?case by simp
  next
    case 7
    then show ?case using I(1) idx below by (simp add: push_def)
  next
    case 8
    then show ?case using I(2) by (simp add: push_def)
  next
    case (9 j)
    then show ?case using I(3) [of j] idx
      by (cases "j = nat index") (auto simp add: push_def nth_list_update split: if_splits)
  next
    case 10
    then show ?case using I(4) not_free by (simp add: push_def)
  next
    case (11 s)
    then show ?case using I(5) [of s] idx below
      by (cases "s = index") (auto simp add: push_def nth_list_update split: if_splits)
  next
    case (12 j)
    then show ?case using I(6) [of j] idx
      by (cases "j = nat index") (auto simp add: push_def nth_list_update split: if_splits)
  qed
qed

lemma node_inv_lists:
  assumes inv: "node_inv g w"
    and same: "nodes g' = nodes g" "free_node_slots g' = free_node_slots g"
      "next_node_index g' = next_node_index g" "number_of_nodes g' = number_of_nodes g"
    and mono: "next_addr w \<le> next_addr w'"
    and idx: "\<And>a. live_node g a \<Longrightarrow>
        map_option index_n (node_heap w' a) = map_option index_n (node_heap w a)"
    and cls: "\<And>c a. count_list (getNodesByLabel g' c) a =
          (if live_node g a \<and> map_option label_class_n (node_heap w' a) = Some c
           then 1 else 0)"
    and root: "\<And>a. count_list (getRootNodes g') a =
          (if live_node g a \<and> map_option root_n (node_heap w' a) = Some True then 1 else 0)"
  shows "node_inv g' w'"
proof (rule node_invI)
  note I = node_invD [OF inv]
  note [simp] = same
  have live [simp]: "\<And>a. live_node g' a = live_node g a" by (simp add: live_node_def)
  show "0 \<le> next_node_index g'" using I(1) by simp
  show "next_node_index g' \<le> int (length (nodes g'))" using I(2) by simp
  show "nodes g' ! i = None" if "nat (next_node_index g') \<le> i" "i < length (nodes g')" for i
    using that I(3) [of i] by simp
  show "distinct (free_node_slots g')" using I(4) by simp
  show "0 \<le> s \<and> s < next_node_index g' \<and> nodes g' ! nat s = None"
    if "s \<in> set (free_node_slots g')" for s
    using that I(5) [of s] by simp
  show "int i \<in> set (free_node_slots g')"
    if "int i < next_node_index g'" "nodes g' ! i = None" for i
    using that I(6) [of i] by simp
  show "a < next_addr w'" if "live_node g' a" for a
    using that I(7) [of a] mono by simp
  show "map_option index_n (node_heap w' a) = Some (int i)"
    if "i < length (nodes g')" "nodes g' ! i = Some a" for i a
  proof -
    from that have "live_node g a" by (auto simp add: live_node_nth)
    with idx [of a] I(8) [of i a] that show ?thesis by simp
  qed
  show "number_of_nodes g' = int (length (filter (\<lambda>p. p \<noteq> None) (nodes g')))"
    using I(9) by simp
  show "count_list (getNodesByLabel g' c) a =
      (if live_node g' a \<and> map_option label_class_n (node_heap w' a) = Some c then 1 else 0)"
    for c a
    using cls [of c a] by simp
  show "count_list (getRootNodes g') a =
      (if live_node g' a \<and> map_option root_n (node_heap w' a) = Some True then 1 else 0)"
    for a
    using root [of a] by simp
qed

lemma node_inv_toggle_root:
  assumes inv: "node_inv g w" and live: "live_node g a" and n: "node_heap w a = Some n"
    and g': "g' = g\<lparr>root_nodes := (if root_n n then remove1 a (root_nodes g)
                                   else a # root_nodes g)\<rparr>"
    and w': "w' = w\<lparr>node_heap := (node_heap w)(a := Some (n\<lparr>root_n := \<not> root_n n\<rparr>))\<rparr>"
  shows "node_inv g' w'"
proof (rule node_inv_lists [OF inv])
  note I = node_invD [OF inv]
  show "nodes g' = nodes g" "free_node_slots g' = free_node_slots g"
    "next_node_index g' = next_node_index g" "number_of_nodes g' = number_of_nodes g"
    "next_addr w \<le> next_addr w'"
    by (simp_all add: g' w')
  show "map_option index_n (node_heap w' b) = map_option index_n (node_heap w b)" for b
    using n by (simp add: w')
  show "count_list (getNodesByLabel g' c) b =
      (if live_node g b \<and> map_option label_class_n (node_heap w' b) = Some c then 1 else 0)"
    for c b
    using I(10) [of c b] n by (simp add: g' w' getNodesByLabel_def)
  show "count_list (getRootNodes g') b =
      (if live_node g b \<and> map_option root_n (node_heap w' b) = Some True then 1 else 0)"
    for b
  proof (cases "b = a")
    case True
    from I(11) [of a] live n
    have cnt: "count_list (root_nodes g) a = (if root_n n then 1 else 0)"
      by (simp add: getRootNodes_def)
    then have "a \<in> set (root_nodes g)" if "root_n n"
      using that count_list_0_iff [of "root_nodes g" a] by auto
    with True cnt live show ?thesis
      by (cases "root_n n") (simp_all add: g' w' getRootNodes_def count_list_remove1)
  next
    case False
    with I(11) [of b] show ?thesis
      by (auto simp add: g' w' getRootNodes_def count_list_remove1)
  qed
qed

lemma node_inv_change_class:
  assumes inv: "node_inv g w" and live: "live_node g a" and n: "node_heap w a = Some n"
    and diff: "label_class_n n \<noteq> c"
    and g': "g' = g\<lparr>nodes_by_label := ((nodes_by_label g)(label_class_n n :=
          Some (remove1 a (g_hash_table_lookup (nodes_by_label g) (label_class_n n)))))
          (c := Some (a # g_hash_table_lookup ((nodes_by_label g)(label_class_n n :=
          Some (remove1 a (g_hash_table_lookup (nodes_by_label g) (label_class_n n))))) c))\<rparr>"
    and w': "w' = w\<lparr>node_heap := (node_heap w)(a := Some (n\<lparr>label_n := l, label_class_n := c\<rparr>))\<rparr>"
  shows "node_inv g' w'"
proof (rule node_inv_lists [OF inv])
  note I = node_invD [OF inv]
  show "nodes g' = nodes g" "free_node_slots g' = free_node_slots g"
    "next_node_index g' = next_node_index g" "number_of_nodes g' = number_of_nodes g"
    "next_addr w \<le> next_addr w'"
    by (simp_all add: g' w')
  show "map_option index_n (node_heap w' b) = map_option index_n (node_heap w b)" for b
    using n by (simp add: w')
  show "count_list (getRootNodes g') b =
      (if live_node g b \<and> map_option root_n (node_heap w' b) = Some True then 1 else 0)"
    for b
    using I(11) [of b] n by (simp add: g' w' getRootNodes_def)
  show "count_list (getNodesByLabel g' c') b =
      (if live_node g b \<and> map_option label_class_n (node_heap w' b) = Some c' then 1 else 0)"
    for c' b
  proof (cases "b = a")
    case True
    from I(10) [of c' a] live n
    have cnt: "count_list (getNodesByLabel g c') a = (if c' = label_class_n n then 1 else 0)"
      by auto
    then have "a \<in> set (getNodesByLabel g c')" if "c' = label_class_n n"
      using that count_list_0_iff [of "getNodesByLabel g c'" a] by auto
    with True cnt live diff show ?thesis
      by (cases "c' = label_class_n n"; cases "c' = c")
         (auto simp add: g' w' getNodesByLabel_def lookup_upd count_list_remove1)
  next
    case False
    with I(10) [of c' b] show ?thesis
      by (auto simp add: g' w' getNodesByLabel_def lookup_upd count_list_remove1)
  qed
qed

lemma node_inv_same_class:
  assumes inv: "node_inv g w" and n: "node_heap w a = Some n"
  shows "node_inv g (w\<lparr>node_heap := (node_heap w)(a := Some (n\<lparr>label_n := l\<rparr>))\<rparr>)"
  using n by (intro node_inv_frame [OF inv]) (simp add: node_frame_def)

lemma relabelNode_node_inv:
  assumes inv: "node_inv g w" and live: "live_node g a"
  shows "post (relabelNode g a l cl cr) w (\<lambda>g' w'. node_inv g' w')"
proof -
  have root: "post (if cr
          then bnd (read_node (Some a)) (\<lambda>n.
               if root_n n
               then bnd (write_node a (n\<lparr>root_n := False\<rparr>)) (\<lambda>_.
                    ret (g\<lparr>root_nodes := remove1 a (root_nodes g)\<rparr>))
               else bnd (write_node a (n\<lparr>root_n := True\<rparr>)) (\<lambda>_.
                    ret (g\<lparr>root_nodes := a # root_nodes g\<rparr>)))
          else ret g) w (\<lambda>g' w'. node_inv g' w' \<and> live_node g' a)"
  proof (cases cr)
    case False
    with inv live show ?thesis by (simp add: post_ret)
  next
    case True
    show ?thesis
    proof (cases "node_heap w a")
      case None
      with True show ?thesis by (simp add: post_def bnd_def read_node_def crash_def)
    next
      case (Some n)
      note T = node_inv_toggle_root [OF inv live Some refl refl]
      from True Some T live show ?thesis
        by (cases "root_n n")
           (simp_all add: post_def bnd_def read_node_def write_node_def ret_def live_node_def)
    qed
  qed
  have label: "post (if cl = False then ret g1
     else
       bnd (read_node (Some a)) (\<lambda>n.
       bnd (if l = NullLabel then ret (BlankLabel, EMPTY_L)
            else bnd (getLabelClass l) (\<lambda>c. ret (l, c))) (\<lambda>(l, new_label_class).
       if label_class_n n \<noteq> new_label_class
       then
         let hash_key_1 = label_class_n n;
             hash_key_2 = new_label_class;
             old_node_list = remove1 a (g_hash_table_lookup (nodes_by_label g1) hash_key_1);
             graph = g1\<lparr>nodes_by_label := (nodes_by_label g1)(hash_key_1 := Some old_node_list)\<rparr>;
             new_node_list = a # g_hash_table_lookup (nodes_by_label graph) hash_key_2;
             graph = graph\<lparr>nodes_by_label := (nodes_by_label graph)(hash_key_2 := Some new_node_list)\<rparr>
         in bnd (write_node a (n\<lparr>label_n := l, label_class_n := new_label_class\<rparr>)) (\<lambda>_.
            ret graph)
       else bnd (write_node a (n\<lparr>label_n := l\<rparr>)) (\<lambda>_. ret g1)))) w1
     (\<lambda>g' w'. node_inv g' w')"
    if inv1: "node_inv g1 w1" and live1: "live_node g1 a" for g1 w1
  proof (cases "cl = False")
    case True
    with inv1 show ?thesis by (simp add: post_ret)
  next
    case False
    show ?thesis
    proof (cases "node_heap w1 a")
      case None
      with False show ?thesis by (simp add: post_def bnd_def read_node_def crash_def)
    next
      case (Some n)
      have step: "post (if label_class_n n \<noteq> c
       then
         let hash_key_1 = label_class_n n;
             hash_key_2 = c;
             old_node_list = remove1 a (g_hash_table_lookup (nodes_by_label g1) hash_key_1);
             graph = g1\<lparr>nodes_by_label := (nodes_by_label g1)(hash_key_1 := Some old_node_list)\<rparr>;
             new_node_list = a # g_hash_table_lookup (nodes_by_label graph) hash_key_2;
             graph = graph\<lparr>nodes_by_label := (nodes_by_label graph)(hash_key_2 := Some new_node_list)\<rparr>
         in bnd (write_node a (n\<lparr>label_n := l', label_class_n := c\<rparr>)) (\<lambda>_.
            ret graph)
       else bnd (write_node a (n\<lparr>label_n := l'\<rparr>)) (\<lambda>_. ret g1)) (w1\<lparr>log_w := ds\<rparr>)
       (\<lambda>g' w'. node_inv g' w')" for c l' ds
      proof (cases "label_class_n n = c")
        have inv2: "node_inv g1 (w1\<lparr>log_w := ds\<rparr>)" by (rule node_inv_log [OF inv1])
        have n2: "node_heap (w1\<lparr>log_w := ds\<rparr>) a = Some n" using Some by simp
        case True
        from node_inv_same_class [OF inv2 n2, of l'] Some True
        show ?thesis
          by (simp add: post_def bnd_def write_node_def ret_def)
      next
        case diff: False
        have inv2: "node_inv g1 (w1\<lparr>log_w := ds\<rparr>)" by (rule node_inv_log [OF inv1])
        have "node_heap (w1\<lparr>log_w := ds\<rparr>) a = Some n" using Some by simp
        from node_inv_change_class [OF inv2 live1 this diff refl refl, of l'] diff
        show ?thesis
          by (simp add: post_def bnd_def write_node_def ret_def Let_def)
      qed
      show ?thesis
      proof (cases "l = NullLabel")
        case True
        with False Some step [of EMPTY_L BlankLabel "log_w w1"] show ?thesis
          by (simp add: post_def bnd_def read_node_def ret_def)
      next
        case notnull: False
        show ?thesis
        proof (cases "getLabelClass l w1")
          case (Inl e)
          with False Some notnull show ?thesis
            by (simp add: post_def bnd_def read_node_def ret_def)
        next
          case (Inr r)
          obtain c w2 where r: "r = (c, w2)" by (cases r)
          with Inr getLabelClass_log_only obtain ds where "w2 = w1\<lparr>log_w := log_w w1 @ ds\<rparr>"
            by blast
          with False Some notnull Inr r step [of c l "log_w w1 @ ds"] show ?thesis
            by (simp add: post_def bnd_def read_node_def ret_def)
        qed
      qed
    qed
  qed
  show ?thesis
    unfolding relabelNode_def
    apply (rule post_bnd)
    apply (rule post_weaken [OF root])
    apply (erule conjE)
    apply (rule label)
     apply assumption+
    done
qed

lemma node_frame_refl: "node_frame g w g w"
  by (simp add: node_frame_def)

lemma node_frame_trans:
  "node_frame g w g1 w1 \<Longrightarrow> node_frame g1 w1 g2 w2 \<Longrightarrow> node_frame g w g2 w2"
  by (simp add: node_frame_def)

lemma newEdge_frame: "post (newEdge b l s t) w (\<lambda>e w'. node_frame g w g w')"
proof (cases "l = NullLabel")
  case True
  then show ?thesis
    by (simp add: post_def newEdge_def bnd_def ret_def malloc_edge_def node_frame_def)
next
  case False
  show ?thesis
  proof (cases "getLabelClass l w")
    case (Inl e)
    with False show ?thesis
      by (simp add: post_def newEdge_def bnd_def)
  next
    case (Inr r)
    obtain c w1 where r: "r = (c, w1)" by (cases r)
    with Inr getLabelClass_log_only obtain ds where "w1 = w\<lparr>log_w := log_w w @ ds\<rparr>"
      by blast
    with False Inr r show ?thesis
      by (simp add: post_def newEdge_def bnd_def ret_def malloc_edge_def node_frame_def)
  qed
qed

lemma addEdge_frame: "post (addEdge g e) w (\<lambda>g' w'. node_frame g w g' w')"
  unfolding addEdge_def
  apply (rule post_rules | simp only: case_pop prod.case Let_def
      | (auto simp add: node_frame_def split: if_splits; fail))+
  done

lemma add_edge_frame:
  "post (add_edge g b l s t) w (\<lambda>(e, g') w'. node_frame g w g' w')"
  unfolding add_edge_def
proof (rule post_bnd, rule post_weaken [OF newEdge_frame [where g = g]], goal_cases)
  case (1 e w1)
  show ?case
    apply (rule post_bnd)
    apply (rule post_weaken [OF addEdge_frame])
    apply (rule post_ret)
    apply (simp add: node_frame_trans [OF 1])
    done
qed

lemma post_find_incident:
  "(\<And>r. Q r w) \<Longrightarrow> post (find_incident arr e cs) w Q"
proof (induction cs)
  case Nil
  then show ?case by (simp add: post_ret)
next
  case (Cons c cs)
  then show ?case
    by (simp add: post_def bnd_def array_get_def ret_def crash_def)
qed

lemma removeEdge_frame: "post (removeEdge g i) w (\<lambda>g' w'. node_frame g w g' w')"
  unfolding removeEdge_def getEdge_def
  apply (rule post_rules post_find_incident | simp only: case_pop prod.case Let_def
      | (auto simp add: node_frame_def split: if_splits; fail))+
  done

lemma relabelEdge_frame: "post (relabelEdge g e l cl cb) w (\<lambda>g' w'. node_frame g w g' w')"
  unfolding relabelEdge_def
  apply (rule post_rules post_getLabelClass | simp only: case_pop prod.case Let_def
      | (auto simp add: node_frame_def split: if_splits; fail))+
  done

lemma getNode_live:
  assumes "getNode g i w = Inr (Some a, w')"
  shows "live_node g a \<and> 0 \<le> i \<and> nat i < length (nodes g) \<and> nodes g ! nat i = Some a"
proof -
  from assms have i: "0 \<le> i" "nat i < length (nodes g)" "nodes g ! nat i = Some a"
    by (auto simp add: getNode_def array_get_def bnd_def ret_def crash_def print_to_log_def
        split: if_splits)
  then have "live_node g a" unfolding live_node_nth by blast
  with i show ?thesis by simp
qed

lemma reachable_node_inv: "reachable g w \<Longrightarrow> node_inv g w"
proof (induction rule: reachable.induct)
  case (reach_new w g w')
  with postD [OF newGraph_node_inv] show ?case by blast
next
  case (reach_add_node g w root label node g' w')
  with postD [OF add_node_node_inv, of g w root label "(node, g')" w'] show ?case by simp
next
  case (reach_add_edge g w bidir label src tgt edge g' w')
  with postD [OF add_edge_frame, of g bidir label src tgt w "(edge, g')" w']
  show ?case by (simp add: node_inv_frame)
next
  case (reach_remove_node g w index g' w')
  with postD [OF removeNode_node_inv] show ?case by blast
next
  case (reach_remove_edge g w index g' w')
  with postD [OF removeEdge_frame] node_inv_frame show ?case by blast
next
  case (reach_relabel_node g w index node label change_label change_root g' w')
  from getNode_live [OF reach_relabel_node(2)] have "live_node g node" by simp
  with reach_relabel_node postD [OF relabelNode_node_inv] show ?case by blast
next
  case (reach_relabel_edge g w edge label change_label change_bidirectional g' w')
  with postD [OF relabelEdge_frame] node_inv_frame show ?case by blast
qed

lemma reachable_class_lists:
  assumes reach: "reachable g w" and node: "getNode g i w = Inr (Some a, w)"
  shows "\<exists>n. node_heap w a = Some n \<and> index_n n = i \<and>
     (\<forall>c. count_list (getNodesByLabel g c) a = (if c = label_class_n n then 1 else 0)) \<and>
     count_list (getRootNodes g) a = (if root_n n then 1 else 0)"
proof -
  note I = node_invD [OF reachable_node_inv [OF reach]]
  from getNode_live [OF node] have live: "live_node g a" and i: "0 \<le> i"
    "nat i < length (nodes g)" "nodes g ! nat i = Some a" by simp_all
  from I(8) [OF i(2) i(3)] i(1) obtain n where n: "node_heap w a = Some n" "index_n n = i"
    by auto
  from I(10) [of _ a] I(11) [of a] live n show ?thesis by auto
qed

lemma relabelNode_effect:
  assumes live: "node_heap w node = Some n"
    and blank: "new_label = NullLabel \<Longrightarrow> c = EMPTY_L"
    and cls: "new_label \<noteq> NullLabel \<Longrightarrow> \<exists>w1. getLabelClass new_label w = Inr (c, w1)"
    and diff: "c \<noteq> label_class_n n"
    and once: "count_list (getNodesByLabel graph (label_class_n n)) node \<le> 1"
  shows "\<exists>graph' w'.
     relabelNode graph node new_label True change_root w = Inr (graph', w') \<and>
     node \<notin> set (getNodesByLabel graph' (label_class_n n)) \<and>
     getNodesByLabel graph' c = node # getNodesByLabel graph c \<and>
     (\<forall>c'. c' \<noteq> c \<and> c' \<noteq> label_class_n n \<longrightarrow>
        getNodesByLabel graph' c' = getNodesByLabel graph c') \<and>
     map_option label_class_n (node_heap w' node) = Some c \<and>
     map_option label_n (node_heap w' node)
       = Some (if new_label = NullLabel then BlankLabel else new_label)"
proof -
  have gone: "node \<notin> set (remove1 node (g_hash_table_lookup (nodes_by_label graph)
      (label_class_n n)))"
    using once by (simp add: remove1_once getNodesByLabel_def)
  show ?thesis
  proof (cases "new_label = NullLabel")
    case True
    with live blank diff gone show ?thesis
      apply (cases change_root; cases "root_n n")
         apply (simp_all add: relabelNode_def getNodesByLabel_def heap_ops run
            cong: cont_cong bnd_cong)
      done
  next
    case False
    with cls obtain ds where
      run_class: "\<And>v. getLabelClass new_label v = Inr (c, v\<lparr>log_w := log_w v @ ds\<rparr>)"
      using getLabelClass_any_world by blast
    from False live diff gone show ?thesis
      apply (cases change_root; cases "root_n n")
      apply (simp_all add: relabelNode_def getNodesByLabel_def run_class heap_ops run
            cong: cont_cong bnd_cong)
      done
  qed
qed

lemma S4_reachable: "reachable S4_graph S4_world"
proof -
  obtain g0 where g0: "newGraph world0 = Inr (g0, world0)" by (simp add: newGraph_def)
  with S4_added have "add_node g0 False NullLabel world0 = Inr ((0, S4_graph), S4_world)"
    by (simp add: bnd_def)
  with reach_new [OF g0] show ?thesis by (rule reach_add_node)
qed

section \<open>The claims\<close>

subsection \<open>C3: the guard of removeNode\<close>

text \<open>
  C3. For a live node (a node pointer in a slot below the high-water mark) whose in-degree
  plus out-degree is positive, \<open>removeNode\<close> writes the incident-edges error and returns:
  the graph record it yields is the one it was given, and the world differs from the one
  before only by the message at the end of the log. Nothing in the node store, the edge
  store, the class tables or the root list is touched.
\<close>

theorem removeNode_dangling:
  assumes "0 \<le> index" and "index < next_node_index graph"
    and "index < int (length (nodes graph))"
    and "nodes graph ! nat index = Some node"
    and "node_heap w node = Some n"
    and "indegree n + outdegree n > 0"
  shows "removeNode graph index w =
           Inr (graph, w\<lparr>log_w := log_w w @ [RemoveNode_incident_edges (index_n n)]\<rparr>)"
proof -
  have g: "getNode graph index w = Inr (Some node, w)"
    using assms by (simp add: getNode_def array_get_def ret_def)
  have d: "deref_node (Some node) w = Inr ((node, n), w)"
    using assms by (simp add: deref_node_def read_node_def run)
  have "indegree n > 0 \<or> outdegree n > 0" using assms by arith
  then show ?thesis
    by (simp add: removeNode_def g d run cong: cont_cong bnd_cong)
qed

text \<open>
  Scenario S3: in the graph of S1, removing node 1 (one edge in, one edge out) is refused,
  and the graph still counts five nodes.
\<close>

theorem removeNode_dangling_witness:
  "S1 world0 = Inr (S1_graph, S1_world) \<and>
   removeNode S1_graph 1 S1_world =
     Inr (S1_graph, S1_world\<lparr>log_w := [RemoveNode_incident_edges 1]\<rparr>) \<and>
   number_of_nodes S1_graph = 5"
  using removeNode_dangling [of 1 S1_graph 1 S1_world "S1_node 1 False (Some 6) (Some 5)"]
    S1_result
  by (simp add: S1_defs)

subsection \<open>C4: the classification table\<close>

text \<open>
  C4. \<open>getLabelClass\<close> classifies as the table of the spec says. The blank label is empty.
  A label whose \<open>has_list_variable\<close> flag is set (the flag is how the code knows that a
  list variable occurs in the label) is \<open>LISTVAR_L\<close>. Without the flag: an empty list gives
  \<open>EMPTY_L\<close>; a list of the single atom \<open>atom\<close> gives \<open>INT_L\<close> for an integer constant or a
  negation, \<open>STRING_L\<close> for a character constant, a string constant or a concatenation,
  \<open>ATOMIC_VAR_L\<close> for a variable; a list of 2, 3, 4 or 5 atoms, its length recorded in
  \<open>list_length\<close>, gives \<open>LIST2_L\<close>, \<open>LIST3_L\<close>, \<open>LIST4_L\<close> or \<open>LIST5_L\<close>. In each case nothing
  is written to the log.
\<close>

theorem getLabelClass_table:
  "getLabelClass BlankLabel w = Inr (EMPTY_L, w) \<and>
   (has_list_variable l \<longrightarrow> getLabelClass (HeapLabel l) w = Inr (LISTVAR_L, w)) \<and>
   (\<not> has_list_variable l \<and> list_l l = [] \<longrightarrow>
      getLabelClass (HeapLabel l) w = Inr (EMPTY_L, w)) \<and>
   (\<not> has_list_variable l \<and> list_l l = [Some atom] \<and> list_length l = 1 \<longrightarrow>
      ((\<exists>i. atom = INTEGER_CONSTANT i) \<or> (\<exists>e. atom = NEG e) \<longrightarrow>
         getLabelClass (HeapLabel l) w = Inr (INT_L, w)) \<and>
      ((\<exists>c. atom = CHARACTER_CONSTANT c) \<or> (\<exists>s. atom = STRING_CONSTANT s) \<or>
       (\<exists>a b. atom = CONCAT a b) \<longrightarrow>
         getLabelClass (HeapLabel l) w = Inr (STRING_L, w)) \<and>
      ((\<exists>v. atom = VARIABLE v) \<longrightarrow>
         getLabelClass (HeapLabel l) w = Inr (ATOMIC_VAR_L, w))) \<and>
   (\<not> has_list_variable l \<and> list_length l = int (length (list_l l)) \<longrightarrow>
      (length (list_l l) = 2 \<longrightarrow> getLabelClass (HeapLabel l) w = Inr (LIST2_L, w)) \<and>
      (length (list_l l) = 3 \<longrightarrow> getLabelClass (HeapLabel l) w = Inr (LIST3_L, w)) \<and>
      (length (list_l l) = 4 \<longrightarrow> getLabelClass (HeapLabel l) w = Inr (LIST4_L, w)) \<and>
      (length (list_l l) = 5 \<longrightarrow> getLabelClass (HeapLabel l) w = Inr (LIST5_L, w)))"
  by (auto simp add: getLabelClass_def deref_label_def blank_label_def bnd_def ret_def)

text \<open>One label for each row of the table, classified through the theorem.\<close>

theorem getLabelClass_table_witness:
  "getLabelClass (label_of [VARIABLE ''xs''] True) world0 = Inr (LISTVAR_L, world0) \<and>
   getLabelClass (label_of [] False) world0 = Inr (EMPTY_L, world0) \<and>
   getLabelClass (label_of [INTEGER_CONSTANT 42] False) world0 = Inr (INT_L, world0) \<and>
   getLabelClass (label_of [NEG (Some (INTEGER_CONSTANT 1))] False) world0
     = Inr (INT_L, world0) \<and>
   getLabelClass (label_of [CHARACTER_CONSTANT ''c''] False) world0 = Inr (STRING_L, world0) \<and>
   getLabelClass (label_of [STRING_CONSTANT ''foo''] False) world0 = Inr (STRING_L, world0) \<and>
   getLabelClass (label_of [CONCAT (Some (STRING_CONSTANT ''a'')) (Some (VARIABLE ''s''))] False)
     world0 = Inr (STRING_L, world0) \<and>
   getLabelClass (label_of [VARIABLE ''x''] False) world0 = Inr (ATOMIC_VAR_L, world0) \<and>
   getLabelClass (label_of [INTEGER_CONSTANT 1, VARIABLE ''x''] False) world0
     = Inr (LIST2_L, world0) \<and>
   getLabelClass (label_of [INTEGER_CONSTANT 1, INTEGER_CONSTANT 2, INTEGER_CONSTANT 3] False)
     world0 = Inr (LIST3_L, world0) \<and>
   getLabelClass (label_of [INTEGER_CONSTANT 1, INTEGER_CONSTANT 2, INTEGER_CONSTANT 3,
     INTEGER_CONSTANT 4] False) world0 = Inr (LIST4_L, world0) \<and>
   getLabelClass (label_of [INTEGER_CONSTANT 1, INTEGER_CONSTANT 2, INTEGER_CONSTANT 3,
     INTEGER_CONSTANT 4, INTEGER_CONSTANT 5] False) world0 = Inr (LIST5_L, world0)"
  using
    getLabelClass_table [where w = world0 and l = "
      \<lparr>mark = NONE, list_l = [Some (VARIABLE ''xs'')], list_length = 1,
      has_list_variable = True\<rparr>"]
    getLabelClass_table [where w = world0 and l = "
      \<lparr>mark = NONE, list_l = [], list_length = 0,
      has_list_variable = False\<rparr>"]
    getLabelClass_table [where w = world0 and l = "
      \<lparr>mark = NONE, list_l = [Some (INTEGER_CONSTANT 42)],
      list_length = 1, has_list_variable = False\<rparr>"
      and atom = "INTEGER_CONSTANT 42"]
    getLabelClass_table [where w = world0 and l = "
      \<lparr>mark = NONE, list_l = [Some (NEG (Some (INTEGER_CONSTANT 1)))],
      list_length = 1, has_list_variable = False\<rparr>"
      and atom = "NEG (Some (INTEGER_CONSTANT 1))"]
    getLabelClass_table [where w = world0 and l = "
      \<lparr>mark = NONE, list_l = [Some (CHARACTER_CONSTANT ''c'')],
      list_length = 1, has_list_variable = False\<rparr>"
      and atom = "CHARACTER_CONSTANT ''c''"]
    getLabelClass_table [where w = world0 and l = "
      \<lparr>mark = NONE, list_l = [Some (STRING_CONSTANT ''foo'')],
      list_length = 1, has_list_variable = False\<rparr>"
      and atom = "STRING_CONSTANT ''foo''"]
    getLabelClass_table [where w = world0 and l = "
      \<lparr>mark = NONE,
      list_l = [Some (CONCAT (Some (STRING_CONSTANT ''a'')) (Some (VARIABLE ''s'')))],
      list_length = 1, has_list_variable = False\<rparr>"
      and atom = "CONCAT (Some (STRING_CONSTANT ''a'')) (Some (VARIABLE ''s''))"]
    getLabelClass_table [where w = world0 and l = "
      \<lparr>mark = NONE, list_l = [Some (VARIABLE ''x'')],
      list_length = 1, has_list_variable = False\<rparr>"
      and atom = "VARIABLE ''x''"]
    getLabelClass_table [where w = world0 and l = "
      \<lparr>mark = NONE,
      list_l = [Some (INTEGER_CONSTANT 1), Some (VARIABLE ''x'')],
      list_length = 2, has_list_variable = False\<rparr>"]
    getLabelClass_table [where w = world0 and l = "
      \<lparr>mark = NONE,
      list_l = [Some (INTEGER_CONSTANT 1), Some (INTEGER_CONSTANT 2), Some (INTEGER_CONSTANT 3)],
      list_length = 3, has_list_variable = False\<rparr>"]
    getLabelClass_table [where w = world0 and l = "
      \<lparr>mark = NONE,
      list_l = [Some (INTEGER_CONSTANT 1), Some (INTEGER_CONSTANT 2), Some (INTEGER_CONSTANT 3),
        Some (INTEGER_CONSTANT 4)],
      list_length = 4, has_list_variable = False\<rparr>"]
    getLabelClass_table [where w = world0 and l = "
      \<lparr>mark = NONE,
      list_l = [Some (INTEGER_CONSTANT 1), Some (INTEGER_CONSTANT 2), Some (INTEGER_CONSTANT 3),
        Some (INTEGER_CONSTANT 4), Some (INTEGER_CONSTANT 5)],
      list_length = 5, has_list_variable = False\<rparr>"]
  by (simp add: label_of_def)

subsection \<open>C10: validGraph on a graph without nodes and edges\<close>

text \<open>
  C10. \<open>validGraph\<close> returns true at once for the \<^verbatim>\<open>NULL\<close> graph and for every graph whose
  \<open>number_of_nodes\<close> and \<open>number_of_edges\<close> are both zero, whatever its arrays, stacks,
  high-water marks and tables hold: no part of the store is read and nothing is logged.
\<close>

theorem validGraph_zero_counts:
  "validGraph None w = Inr (True, w) \<and>
   (number_of_nodes graph = 0 \<and> number_of_edges graph = 0 \<longrightarrow>
      validGraph (Some graph) w = Inr (True, w))"
  by (simp add: validGraph_def ret_def)

text \<open>
  The graph \<open>broken_empty_graph\<close> has empty slots that are on no stack, a stack with a
  repeated entry outside the array and a root that is no node; it is reported valid.
\<close>

theorem validGraph_zero_counts_witness:
  "number_of_nodes broken_empty_graph = 0 \<and> number_of_edges broken_empty_graph = 0 \<and>
   nodes broken_empty_graph ! 0 = None \<and> next_node_index broken_empty_graph = 2 \<and>
   0 \<notin> set (free_node_slots broken_empty_graph) \<and>
   validGraph (Some broken_empty_graph) world0 = Inr (True, world0)"
  using validGraph_zero_counts [of world0 broken_empty_graph]
  by (simp add: broken_empty_graph_def)

subsection \<open>C1: validGraph after a sequence of operations\<close>

text \<open>
  C1. The spec has \<open>validGraph\<close> return true after every public operation. The graph
  \<open>churn\<close> is reached from \<open>newGraph\<close> by two \<open>add_node\<close>, two \<open>add_edge\<close> and one
  \<open>removeEdge\<close>; it satisfies the seven invariants of section 3 of the spec, and
  \<open>validGraph\<close> returns false on it. The search for an edge in the out-array of its source
  (invariant (11) of the source) visits the positions below \<open>outdegree\<close>, which is 1 after
  the removal, and the remaining edge is at position 1. The loops for invariants (5) and
  (7) walk the same arrays up to \<open>next_out_edge_index\<close> and \<open>next_in_edge_index\<close>. On the
  graph of S1, which has no hole, the invariants hold and \<open>validGraph\<close> returns true; on
  \<open>broken_empty_graph\<close> the invariants fail.
\<close>

theorem validGraph_rejects_churn:
  "map_sum id fst (bnd churn (\<lambda>g. bnd (spec_invariants g) (\<lambda>inv.
     bnd (validGraph (Some g)) (\<lambda>valid. ret (inv, valid)))) world0) = Inr (True, False) \<and>
   map_sum id fst (bnd (spec_invariants S1_graph) (\<lambda>inv.
     bnd (validGraph (Some S1_graph)) (\<lambda>valid. ret (inv, valid))) S1_world)
     = Inr (True, True) \<and>
   map_sum id fst (spec_invariants broken_empty_graph world0) = Inr False"
proof (intro conjI)
  show "map_sum id fst (bnd churn (\<lambda>g. bnd (spec_invariants g) (\<lambda>inv.
     bnd (validGraph (Some g)) (\<lambda>valid. ret (inv, valid)))) world0) = Inr (True, False)"
    by (simp add: churn_def world0_def validGraph_def removeEdge_def query_ops spec_inv_defs
        build_ops heap_ops run arrays cong: cont_cong bnd_cong)
  show "map_sum id fst (bnd (spec_invariants S1_graph) (\<lambda>inv.
     bnd (validGraph (Some S1_graph)) (\<lambda>valid. ret (inv, valid))) S1_world)
     = Inr (True, True)"
    by (simp add: S1_defs validGraph_def query_ops spec_inv_defs
        build_ops heap_ops run arrays cong: cont_cong bnd_cong)
  show "map_sum id fst (spec_invariants broken_empty_graph world0) = Inr False"
    by (simp add: broken_empty_graph_def world0_def spec_inv_defs run arrays
        cong: cont_cong bnd_cong)
qed

subsection \<open>C2: copyGraph and restoreGraph\<close>

text \<open>
  C2. The spec has \<open>copyGraph\<close> take a snapshot of every graph. On the graph \<open>churn\<close>, whose
  edge array has an empty slot below the high-water mark, \<open>copyGraph\<close> dereferences
  \<^verbatim>\<open>NULL\<close>: its third loop calls \<^verbatim>\<open>getSource\<close> on what \<^verbatim>\<open>getEdge\<close> returns for every index
  below \<open>next_edge_index\<close>, and slot 0 is empty. Its first two loops test for \<^verbatim>\<open>NULL\<close>. On
  the graph of S1, which has no empty slot, scenarios S5 and S6 go as the spec says: the
  restored graphs have the views of the graphs at the snapshots, in reverse order.
\<close>

theorem copyGraph_faults_on_churn:
  "bnd churn copyGraph world0 = Inl NullDereference \<and>
   map_sum id fst (S5 world0) = Inr (True, False) \<and>
   map_sum id fst (S6 world0) = Inr (True, True, False)"
proof (intro conjI)
  show "bnd churn copyGraph world0 = Inl NullDereference"
    by (simp add: churn_def world0_def copyGraph_def removeEdge_def query_ops copyLabel_def
        build_ops heap_ops run arrays cong: cont_cong bnd_cong)
  show "map_sum id fst (S5 world0) = Inr (True, False)"
    by (simp add: S5_def bnd_apply [of S1] S1_result cont_Inr)
       (simp add: S1_defs observe_defs copy_ops query_ops build_ops heap_ops run arrays
          cong: cont_cong bnd_cong)
  show "map_sum id fst (S6 world0) = Inr (True, True, False)"
    by (simp add: S6_def bnd_apply [of S1] S1_result cont_Inr)
       (simp add: S1_defs observe_defs copy_ops query_ops build_ops heap_ops run arrays
          cong: cont_cong bnd_cong)
qed

subsection \<open>C6: the bound checks of getNode and getEdge\<close>

text \<open>
  C6. The spec has the accessors fail with out-of-range for every index at or above the
  high-water mark. \<open>getNode\<close> and \<open>getEdge\<close> compare with \<^verbatim>\<open>>\<close>: at the high-water mark
  itself they write no message and return what the array holds there. On a new graph index
  0 is read, on the graph of S1 node index 5 and edge index 4; one above, the message is
  written. With an array of one node that is full, index 1 is read outside the array.
\<close>

theorem getNode_getEdge_at_high_water_mark:
  "bnd newGraph (\<lambda>g. getNode g 0) world0 = Inr (None, world0) \<and>
   bnd newGraph (\<lambda>g. getEdge g 0) world0 = Inr (None, world0) \<and>
   next_node_index S1_graph = 5 \<and>
   getNode S1_graph 5 S1_world = Inr (None, S1_world) \<and>
   getNode S1_graph 6 S1_world = Inr (None, S1_world\<lparr>log_w := [GetNode_index_exceeds]\<rparr>) \<and>
   next_edge_index S1_graph = 4 \<and>
   getEdge S1_graph 4 S1_world = Inr (None, S1_world) \<and>
   getEdge S1_graph 5 S1_world = Inr (None, S1_world\<lparr>log_w := [GetEdge_index_exceeds]\<rparr>) \<and>
   bnd newGraph (\<lambda>g. bnd (add_node g False NullLabel) (\<lambda>(n, g). getNode g 1))
     (world0\<lparr>MAX_NODES := 1\<rparr>) = Inl OutOfBounds"
  by (simp add: S1_defs query_ops build_ops heap_ops run arrays cong: cont_cong bnd_cong)

subsection \<open>C9: the class of a copied label\<close>

text \<open>
  C9. The spec has \<open>copyLabel\<close> preserve the label class of every label. For a heap label
  with an empty list, \<open>copyLabel\<close> writes only the \<^verbatim>\<open>list\<close> field of the block it allocates:
  mark, length and \<open>has_list_variable\<close> of the copy are what the block held. In \<open>world0\<close> a
  fresh block holds a nonzero \<open>has_list_variable\<close>, and the copy of the label
  \<^verbatim>\<open>empty # red\<close>, of class \<open>EMPTY_L\<close>, has class \<open>LISTVAR_L\<close>. For an atom that
  \<^verbatim>\<open>copyListElement\<close> does not handle, such as \<^verbatim>\<open>indeg\<close>, the list of the copy holds \<^verbatim>\<open>NULL\<close>,
  and classifying the copy dereferences it.
\<close>

theorem copyLabel_changes_class:
  "getLabelClass red_empty_label world0 = Inr (EMPTY_L, world0) \<and>
   bnd (copyLabel red_empty_label) getLabelClass world0 = Inr (LISTVAR_L, world0) \<and>
   map_sum id fst (getLabelClass (label_of [INDEGREE ''n1''] False) world0) = Inr LISTVAR_L \<and>
   bnd (copyLabel (label_of [INDEGREE ''n1''] False)) getLabelClass world0
     = Inl NullDereference"
  by (simp add: world0_def red_empty_label_def getLabelClass_def copyLabel_def deref_label_def
      label_of_def copyListElement_p_def run cong: cont_cong bnd_cong)

subsection \<open>C7: insertion reuses free slots\<close>

text \<open>
  C7. \<open>addNode\<close> and \<open>addEdge\<close> insert into the node and the edge array as the spec says.
  If the free-slot stack is not empty, its top \<open>s\<close> is popped, the pointer is placed in
  slot \<open>s\<close> and \<open>s\<close> is written into the index field of the entity; the high-water mark
  stays. Otherwise the pointer is placed at the high-water mark, the index field gets the
  high-water mark, and the mark goes up by one. The premises say that the entity and, for
  an edge, its two end points are allocated and that the positions written are inside the
  arrays. Consequently, in the graph of S1, removing edge 1 and adding an edge from N1 to
  N3 gives the new edge the index 1.
\<close>

theorem insert_reuses_free_slot:
  "(node_heap w node = Some n \<and>
    has_room (free_node_slots graph) (next_node_index graph) (length (nodes graph)) \<longrightarrow>
      (\<exists>graph' w'. addNode graph node w = Inr (graph', w') \<and>
         (case free_node_slots graph of
            s # st \<Rightarrow>
              nodes graph' = (nodes graph)[nat s := Some node] \<and>
              node_heap w' node = Some (n\<lparr>index_n := s\<rparr>) \<and>
              free_node_slots graph' = st \<and> next_node_index graph' = next_node_index graph
          | [] \<Rightarrow>
              nodes graph' = (nodes graph)[nat (next_node_index graph) := Some node] \<and>
              node_heap w' node = Some (n\<lparr>index_n := next_node_index graph\<rparr>) \<and>
              free_node_slots graph' = [] \<and>
              next_node_index graph' = next_node_index graph + 1))) \<and>
   (edge_heap w edge = Some e \<and>
    has_room (free_edge_slots graph) (next_edge_index graph) (length (edges graph)) \<and>
    source e = Some sa \<and> node_heap w sa = Some sn \<and>
    has_room (free_out_edge_slots sn) (next_out_edge_index sn) (length (out_edges sn)) \<and>
    target e = Some ta \<and> node_heap w ta = Some tn \<and>
    has_room (free_in_edge_slots tn) (next_in_edge_index tn) (length (in_edges tn)) \<longrightarrow>
      (\<exists>graph' w'. addEdge graph edge w = Inr (graph', w') \<and>
         (case free_edge_slots graph of
            s # st \<Rightarrow>
              edges graph' = (edges graph)[nat s := Some edge] \<and>
              edge_heap w' edge = Some (e\<lparr>index_e := s\<rparr>) \<and>
              free_edge_slots graph' = st \<and> next_edge_index graph' = next_edge_index graph
          | [] \<Rightarrow>
              edges graph' = (edges graph)[nat (next_edge_index graph) := Some edge] \<and>
              edge_heap w' edge = Some (e\<lparr>index_e := next_edge_index graph\<rparr>) \<and>
              free_edge_slots graph' = [] \<and>
              next_edge_index graph' = next_edge_index graph + 1))) \<and>
   S1 world0 = Inr (S1_graph, S1_world) \<and>
   map_sum id fst
     (bnd (removeEdge S1_graph 1) (\<lambda>g.
      bnd (add_edge g False NullLabel 1 3) (\<lambda>(edge, g).
      bnd (read_edge (Some edge)) (\<lambda>e. ret (index_e e)))) S1_world) = Inr 1"
proof (intro conjI impI)
  assume "node_heap w node = Some n \<and>
    has_room (free_node_slots graph) (next_node_index graph) (length (nodes graph))"
  then show "\<exists>graph' w'. addNode graph node w = Inr (graph', w') \<and>
         (case free_node_slots graph of
            s # st \<Rightarrow>
              nodes graph' = (nodes graph)[nat s := Some node] \<and>
              node_heap w' node = Some (n\<lparr>index_n := s\<rparr>) \<and>
              free_node_slots graph' = st \<and> next_node_index graph' = next_node_index graph
          | [] \<Rightarrow>
              nodes graph' = (nodes graph)[nat (next_node_index graph) := Some node] \<and>
              node_heap w' node = Some (n\<lparr>index_n := next_node_index graph\<rparr>) \<and>
              free_node_slots graph' = [] \<and>
              next_node_index graph' = next_node_index graph + 1)"
    using addNode_effect [of w node n graph] by blast
next
  assume "edge_heap w edge = Some e \<and>
    has_room (free_edge_slots graph) (next_edge_index graph) (length (edges graph)) \<and>
    source e = Some sa \<and> node_heap w sa = Some sn \<and>
    has_room (free_out_edge_slots sn) (next_out_edge_index sn) (length (out_edges sn)) \<and>
    target e = Some ta \<and> node_heap w ta = Some tn \<and>
    has_room (free_in_edge_slots tn) (next_in_edge_index tn) (length (in_edges tn))"
  then show "\<exists>graph' w'. addEdge graph edge w = Inr (graph', w') \<and>
         (case free_edge_slots graph of
            s # st \<Rightarrow>
              edges graph' = (edges graph)[nat s := Some edge] \<and>
              edge_heap w' edge = Some (e\<lparr>index_e := s\<rparr>) \<and>
              free_edge_slots graph' = st \<and> next_edge_index graph' = next_edge_index graph
          | [] \<Rightarrow>
              edges graph' = (edges graph)[nat (next_edge_index graph) := Some edge] \<and>
              edge_heap w' edge = Some (e\<lparr>index_e := next_edge_index graph\<rparr>) \<and>
              free_edge_slots graph' = [] \<and>
              next_edge_index graph' = next_edge_index graph + 1)"
    using addEdge_effect [of w edge e graph sa sn ta tn] by blast
next
  show "S1 world0 = Inr (S1_graph, S1_world)" by (rule S1_result)
next
  show "map_sum id fst
     (bnd (removeEdge S1_graph 1) (\<lambda>g.
      bnd (add_edge g False NullLabel 1 3) (\<lambda>(edge, g).
      bnd (read_edge (Some edge)) (\<lambda>e. ret (index_e e)))) S1_world) = Inr 1"
    by (simp add: bnd_apply [of "removeEdge S1_graph 1"] S2_removed cont_Inr)
       (simp add: S2_graph_def S2_world_def S1_defs build_ops heap_ops run arrays
          cong: cont_cong bnd_cong)
qed

text \<open>
  The general statement at the state of scenario S2: the edge array has slot 1 free and
  reuses it, the node array has no free slot and grows at its high-water mark 5.
\<close>

theorem insert_reuses_free_slot_witness:
  "free_node_slots S2_graph = [] \<and> next_node_index S2_graph = 5 \<and>
   (\<exists>graph' w'. addNode S2_graph 10 S2_alloc_world = Inr (graph', w') \<and>
      nodes graph' = (nodes S2_graph)[5 := Some 10] \<and>
      node_heap w' 10 = Some (S1_node 5 False None None) \<and>
      free_node_slots graph' = [] \<and> next_node_index graph' = 6) \<and>
   free_edge_slots S2_graph = [1] \<and> next_edge_index S2_graph = 4 \<and>
   (\<exists>graph' w'. addEdge S2_graph 9 S2_alloc_world = Inr (graph', w') \<and>
      edges graph' = (edges S2_graph)[1 := Some 9] \<and>
      edge_heap w' 9 = Some (S1_edge 1 1 3) \<and>
      free_edge_slots graph' = [] \<and> next_edge_index graph' = 4)"
  using insert_reuses_free_slot [where w = S2_alloc_world and graph = S2_graph
      and node = 10 and n = "S1_node 0 False None None"
      and edge = 9 and e = "S1_edge 0 1 3"
      and sa = 1 and sn = "S1_node 1 False None (Some 5)"
      and ta = 3 and tn = "S1_node 3 False (Some 8) (Some 7)"]
  by (simp add: S2_alloc_world_def S2_graph_def S2_world_def S1_defs has_room_def)


subsection \<open>C8: relabelling moves a node between class lists\<close>

text \<open>
  C8. In a graph built by the public operations, for a node of the graph, \<open>relabelNode\<close>
  with \<open>change_label\<close> true and a new label whose class \<open>c\<close> differs from the class
  recorded in the node (\<open>EMPTY_L\<close> for the \<^verbatim>\<open>NULL\<close> label) moves the node: it is no longer
  in the list of its old class, it is the head of the list of \<open>c\<close>, the other lists are as
  before, the node occurs once in the list of \<open>c\<close> and in no other, and it records \<open>c\<close>
  and the new label. The root flag may be toggled in the same call. In scenario S4 the
  node ends in the list of \<open>INT_L\<close> and in no other, with recorded class \<open>INT_L\<close>.
  (\<open>relabelNode_effect\<close> is the same for any graph in which the node occurs at most once
  in the list of its old class.)
\<close>

theorem relabelNode_moves_class:
  assumes reach: "reachable graph w"
    and node: "getNode graph index w = Inr (Some node, w)"
    and blank: "new_label = NullLabel \<Longrightarrow> c = EMPTY_L"
    and cls: "new_label \<noteq> NullLabel \<Longrightarrow> \<exists>w1. getLabelClass new_label w = Inr (c, w1)"
    and diff: "map_option label_class_n (node_heap w node) \<noteq> Some c"
  shows "(\<exists>graph' w' old.
     map_option label_class_n (node_heap w node) = Some old \<and>
     relabelNode graph node new_label True change_root w = Inr (graph', w') \<and>
     node \<notin> set (getNodesByLabel graph' old) \<and>
     getNodesByLabel graph' c = node # getNodesByLabel graph c \<and>
     (\<forall>c'. c' \<noteq> c \<and> c' \<noteq> old \<longrightarrow>
        getNodesByLabel graph' c' = getNodesByLabel graph c') \<and>
     (\<forall>c'. count_list (getNodesByLabel graph' c') node = (if c' = c then 1 else 0)) \<and>
     map_option label_class_n (node_heap w' node) = Some c \<and>
     map_option label_n (node_heap w' node)
       = Some (if new_label = NullLabel then BlankLabel else new_label)) \<and>
   map_sum id fst (S4 world0) = Inr (0, [[], [0], [], [], [], [], [], [], []], INT_L)"
proof (rule conjI)
  show "map_sum id fst (S4 world0) = Inr (0, [[], [0], [], [], [], [], [], [], []], INT_L)"
    by (simp add: S4_def world0_def label_of_def relabelNode_def getLabelClass_def
        deref_label_def getNodesByLabel_def build_ops heap_ops run arrays
        cong: cont_cong bnd_cong)
  from reachable_class_lists [OF reach node] obtain n where n: "node_heap w node = Some n"
    and lists: "\<And>c'. count_list (getNodesByLabel graph c') node
        = (if c' = label_class_n n then 1 else 0)"
    by blast
  from diff n have diff': "c \<noteq> label_class_n n" by auto
  from lists [of "label_class_n n"]
  have once: "count_list (getNodesByLabel graph (label_class_n n)) node \<le> 1" by simp
  from relabelNode_effect [OF n blank cls diff' once, of change_root] obtain graph' w'
    where run: "relabelNode graph node new_label True change_root w = Inr (graph', w')"
      and gone: "node \<notin> set (getNodesByLabel graph' (label_class_n n))"
      and head: "getNodesByLabel graph' c = node # getNodesByLabel graph c"
      and rest: "\<forall>c'. c' \<noteq> c \<and> c' \<noteq> label_class_n n \<longrightarrow>
        getNodesByLabel graph' c' = getNodesByLabel graph c'"
      and cls': "map_option label_class_n (node_heap w' node) = Some c"
      and lab': "map_option label_n (node_heap w' node)
        = Some (if new_label = NullLabel then BlankLabel else new_label)"
    by blast
  have "reachable graph' w'" using reach node run by (rule reach_relabel_node)
  note I = node_invD [OF reachable_node_inv [OF this]]
  from head have "count_list (getNodesByLabel graph' c) node \<noteq> 0" by simp
  with I(10) [of c node] have "live_node graph' node" by (simp split: if_splits)
  with I(10) [of _ node] cls'
  have exact: "\<forall>c'. count_list (getNodesByLabel graph' c') node = (if c' = c then 1 else 0)"
    by auto
  from n run gone head rest exact cls' lab'
  show "\<exists>graph' w' old.
     map_option label_class_n (node_heap w node) = Some old \<and>
     relabelNode graph node new_label True change_root w = Inr (graph', w') \<and>
     node \<notin> set (getNodesByLabel graph' old) \<and>
     getNodesByLabel graph' c = node # getNodesByLabel graph c \<and>
     (\<forall>c'. c' \<noteq> c \<and> c' \<noteq> old \<longrightarrow>
        getNodesByLabel graph' c' = getNodesByLabel graph c') \<and>
     (\<forall>c'. count_list (getNodesByLabel graph' c') node = (if c' = c then 1 else 0)) \<and>
     map_option label_class_n (node_heap w' node) = Some c \<and>
     map_option label_n (node_heap w' node)
       = Some (if new_label = NullLabel then BlankLabel else new_label)"
    by (intro exI [of _ graph'] exI [of _ w'] exI [of _ "label_class_n n"]) simp
qed


text \<open>
  The statement at the state of scenario S4 before the relabelling, which \<open>newGraph\<close> and
  one \<open>add_node\<close> build.
\<close>

theorem relabelNode_moves_class_witness:
  "reachable S4_graph S4_world \<and>
   getNode S4_graph 0 S4_world = Inr (Some 0, S4_world) \<and>
   map_option label_class_n (node_heap S4_world 0) = Some EMPTY_L \<and>
   (\<exists>graph' w'.
     relabelNode S4_graph 0 (label_of [INTEGER_CONSTANT 42] False) True False S4_world
       = Inr (graph', w') \<and>
     0 \<notin> set (getNodesByLabel graph' EMPTY_L) \<and>
     getNodesByLabel graph' INT_L = [0] \<and>
     (\<forall>c'. c' \<noteq> INT_L \<and> c' \<noteq> EMPTY_L \<longrightarrow> getNodesByLabel graph' c' = []) \<and>
     (\<forall>c'. count_list (getNodesByLabel graph' c') 0 = (if c' = INT_L then 1 else 0)) \<and>
     map_option label_class_n (node_heap w' 0) = Some INT_L \<and>
     map_option label_n (node_heap w' 0) = Some (label_of [INTEGER_CONSTANT 42] False))"
  using S4_reachable relabelNode_moves_class [OF S4_reachable, where index = 0 and node = 0
      and c = INT_L and change_root = False
      and new_label = "label_of [INTEGER_CONSTANT 42] False"]
  by (simp add: S4_world_def S4_graph_def S1_defs label_of_def getNodesByLabel_def
      g_hash_table_lookup_def getLabelClass_def deref_label_def array_get_def query_ops run)


subsection \<open>C5: labels longer than five atoms\<close>

text \<open>
  C5. The spec has a label of more than five atoms rejected before it is installed. In
  the code nothing rejects a label: \<open>getLabelClass\<close> returns a class for it, and
  \<^verbatim>\<open>newNode\<close> stores the label. Adding a node with a label of six integers to a new graph
  yields a node that carries this label, is in slot 0 of the node array and is in a class
  list.
\<close>

theorem long_label_counterexample:
  "map_sum id fst
     (bnd newGraph (\<lambda>g.
      bnd (add_node g False six_label) (\<lambda>(n0, g).
      bnd (getNodeLabel (Some n0)) (\<lambda>l.
      ret (l = six_label, getNodesByLabel g INT_L, nodes g ! 0, n0)))) world0)
   = Inr (True, [0], Some 0, 0)"
  by (simp add: six_label_def world0_def label_of_def getLabelClass_def deref_label_def
      getNodeLabel_def getNodesByLabel_def build_ops heap_ops run arrays
      cong: cont_cong bnd_cong)


text \<open>
  C5, amended. For a label without list variable whose length field exceeds 5 and whose
  list starts with an atom, \<open>getLabelClass\<close> writes the exceeds-maximum message to the log
  and returns a class \<open>c\<close>. The label is not rejected: \<open>add_node\<close> stores it in the new
  node, which records the class \<open>c\<close>, is entered in the node array and is put at the head
  of the list of \<open>c\<close>, and \<open>add_edge\<close> does the same for the new edge; the message is in
  the log afterwards. The premises on room say that the positions written are inside the
  arrays and that the end points of the edge are allocated.
\<close>

theorem long_label_installed:
  assumes long: "\<not> has_list_variable l" "list_length l > 5" "list_l l = Some atom # rest"
  shows "\<exists>c ds.
   getLabelClass (HeapLabel l) w
     = Inr (c, w\<lparr>log_w := log_w w @ GetLabelClass_exceeds_maximum # ds\<rparr>) \<and>
   (has_room (free_node_slots graph) (next_node_index graph) (length (nodes graph)) \<longrightarrow>
      (\<exists>node graph' w'.
         add_node graph root (HeapLabel l) w = Inr ((node, graph'), w') \<and>
         map_option label_n (node_heap w' node) = Some (HeapLabel l) \<and>
         map_option label_class_n (node_heap w' node) = Some c \<and>
         getNodesByLabel graph' c = node # getNodesByLabel graph c \<and>
         node \<in> set (getNodesByLabel graph' c) \<and>
         Some node \<in> set (nodes graph') \<and>
         GetLabelClass_exceeds_maximum \<in> set (log_w w'))) \<and>
   (has_room (free_edge_slots graph) (next_edge_index graph) (length (edges graph)) \<and>
    node_heap w src = Some sn \<and>
    has_room (free_out_edge_slots sn) (next_out_edge_index sn) (length (out_edges sn)) \<and>
    node_heap w tgt = Some tn \<and>
    has_room (free_in_edge_slots tn) (next_in_edge_index tn) (length (in_edges tn)) \<longrightarrow>
      (\<exists>edge graph' w'.
         add_edge graph bidir (HeapLabel l) src tgt w = Inr ((edge, graph'), w') \<and>
         map_option label_e (edge_heap w' edge) = Some (HeapLabel l) \<and>
         map_option label_class_e (edge_heap w' edge) = Some c \<and>
         getEdgesByLabel graph' c = edge # getEdgesByLabel graph c \<and>
         edge \<in> set (getEdgesByLabel graph' c) \<and>
         Some edge \<in> set (edges graph') \<and>
         GetLabelClass_exceeds_maximum \<in> set (log_w w')))"
proof -
  from long_label_logged [OF long] obtain c ds where
    cls: "\<And>v. getLabelClass (HeapLabel l) v
       = Inr (c, v\<lparr>log_w := log_w v @ GetLabelClass_exceeds_maximum # ds\<rparr>)"
    by blast
  have part1: "getLabelClass (HeapLabel l) w
      = Inr (c, w\<lparr>log_w := log_w w @ GetLabelClass_exceeds_maximum # ds\<rparr>)"
    by (rule cls)
  have part2: "\<exists>node graph' w'.
         add_node graph root (HeapLabel l) w = Inr ((node, graph'), w') \<and>
         map_option label_n (node_heap w' node) = Some (HeapLabel l) \<and>
         map_option label_class_n (node_heap w' node) = Some c \<and>
         getNodesByLabel graph' c = node # getNodesByLabel graph c \<and>
         node \<in> set (getNodesByLabel graph' c) \<and>
         Some node \<in> set (nodes graph') \<and>
         GetLabelClass_exceeds_maximum \<in> set (log_w w')"
    if room: "has_room (free_node_slots graph) (next_node_index graph) (length (nodes graph))"
  proof -
    obtain node w1 where new: "newNode root (HeapLabel l) w = Inr (node, w1)"
      by (simp add: newNode_def cls malloc_node_def run cong: cont_cong bnd_cong)
    then obtain n1 where n1: "node_heap w1 node = Some n1" "label_n n1 = HeapLabel l"
        "label_class_n n1 = c" "GetLabelClass_exceeds_maximum \<in> set (log_w w1)"
      by (auto simp add: newNode_def cls malloc_node_def run cong: cont_cong bnd_cong)
    from addNode_effect [OF n1(1) room] obtain graph' w' where
      add: "addNode graph node w1 = Inr (graph', w')"
      and slot: "case free_node_slots graph of
          s # st \<Rightarrow> nodes graph' = (nodes graph)[nat s := Some node] \<and>
            node_heap w' node = Some (n1\<lparr>index_n := s\<rparr>) \<and>
            free_node_slots graph' = st \<and> next_node_index graph' = next_node_index graph
        | [] \<Rightarrow> nodes graph' = (nodes graph)[nat (next_node_index graph) := Some node] \<and>
            node_heap w' node = Some (n1\<lparr>index_n := next_node_index graph\<rparr>) \<and>
            free_node_slots graph' = [] \<and>
            next_node_index graph' = next_node_index graph + 1"
      and cl: "getNodesByLabel graph' (label_class_n n1)
          = node # getNodesByLabel graph (label_class_n n1)"
      and lg: "log_w w' = log_w w1"
      by blast
    have run_add: "add_node graph root (HeapLabel l) w = Inr ((node, graph'), w')"
      by (simp add: add_node_def bnd_apply new add cont_Inr ret_def)
    from slot room have "Some node \<in> set (nodes graph')"
      by (cases "free_node_slots graph") (auto simp add: has_room_def intro: set_update_memI)
    moreover from slot n1 have "map_option label_n (node_heap w' node) = Some (HeapLabel l)"
      "map_option label_class_n (node_heap w' node) = Some c"
      by (cases "free_node_slots graph"; simp)+
    ultimately show ?thesis
      using run_add cl n1 lg by auto
  qed
  have part3: "\<exists>edge graph' w'.
         add_edge graph bidir (HeapLabel l) src tgt w = Inr ((edge, graph'), w') \<and>
         map_option label_e (edge_heap w' edge) = Some (HeapLabel l) \<and>
         map_option label_class_e (edge_heap w' edge) = Some c \<and>
         getEdgesByLabel graph' c = edge # getEdgesByLabel graph c \<and>
         edge \<in> set (getEdgesByLabel graph' c) \<and>
         Some edge \<in> set (edges graph') \<and>
         GetLabelClass_exceeds_maximum \<in> set (log_w w')"
    if room: "has_room (free_edge_slots graph) (next_edge_index graph) (length (edges graph))"
      and s: "node_heap w src = Some sn"
        "has_room (free_out_edge_slots sn) (next_out_edge_index sn) (length (out_edges sn))"
      and t: "node_heap w tgt = Some tn"
        "has_room (free_in_edge_slots tn) (next_in_edge_index tn) (length (in_edges tn))"
  proof -
    obtain edge w1 where new: "newEdge bidir (HeapLabel l) (Some src) (Some tgt) w
        = Inr (edge, w1)"
      by (simp add: newEdge_def cls malloc_edge_def run cong: cont_cong bnd_cong)
    then obtain e1 where e1: "edge_heap w1 edge = Some e1" "label_e e1 = HeapLabel l"
        "label_class_e e1 = c" "GetLabelClass_exceeds_maximum \<in> set (log_w w1)"
        "source e1 = Some src" "target e1 = Some tgt" "node_heap w1 = node_heap w"
      by (auto simp add: newEdge_def cls malloc_edge_def run cong: cont_cong bnd_cong)
    from s t e1 have s1: "node_heap w1 src = Some sn" and t1: "node_heap w1 tgt = Some tn"
      by simp_all
    from addEdge_effect [OF e1(1) room e1(5) s1 s(2) e1(6) t1 t(2)] obtain graph' w' where
      add: "addEdge graph edge w1 = Inr (graph', w')"
      and slot: "case free_edge_slots graph of
          s # st \<Rightarrow> edges graph' = (edges graph)[nat s := Some edge] \<and>
            edge_heap w' edge = Some (e1\<lparr>index_e := s\<rparr>) \<and>
            free_edge_slots graph' = st \<and> next_edge_index graph' = next_edge_index graph
        | [] \<Rightarrow> edges graph' = (edges graph)[nat (next_edge_index graph) := Some edge] \<and>
            edge_heap w' edge = Some (e1\<lparr>index_e := next_edge_index graph\<rparr>) \<and>
            free_edge_slots graph' = [] \<and>
            next_edge_index graph' = next_edge_index graph + 1"
      and cl: "getEdgesByLabel graph' (label_class_e e1)
          = edge # getEdgesByLabel graph (label_class_e e1)"
      and lg: "log_w w' = log_w w1"
      by blast
    have run_add: "add_edge graph bidir (HeapLabel l) src tgt w = Inr ((edge, graph'), w')"
      by (simp add: add_edge_def bnd_apply new add cont_Inr ret_def)
    from slot room have "Some edge \<in> set (edges graph')"
      by (cases "free_edge_slots graph") (auto simp add: has_room_def intro: set_update_memI)
    moreover from slot e1 have "map_option label_e (edge_heap w' edge) = Some (HeapLabel l)"
      "map_option label_class_e (edge_heap w' edge) = Some c"
      by (cases "free_edge_slots graph"; simp)+
    ultimately show ?thesis
      using run_add cl e1 lg by auto
  qed
  show ?thesis
  proof (intro exI [of _ c] exI [of _ ds] conjI impI)
    show "getLabelClass (HeapLabel l) w
      = Inr (c, w\<lparr>log_w := log_w w @ GetLabelClass_exceeds_maximum # ds\<rparr>)"
      by (rule part1)
  next
    assume "has_room (free_node_slots graph) (next_node_index graph) (length (nodes graph))"
    then show "\<exists>node graph' w'.
         add_node graph root (HeapLabel l) w = Inr ((node, graph'), w') \<and>
         map_option label_n (node_heap w' node) = Some (HeapLabel l) \<and>
         map_option label_class_n (node_heap w' node) = Some c \<and>
         getNodesByLabel graph' c = node # getNodesByLabel graph c \<and>
         node \<in> set (getNodesByLabel graph' c) \<and>
         Some node \<in> set (nodes graph') \<and>
         GetLabelClass_exceeds_maximum \<in> set (log_w w')"
      by (rule part2)
  next
    assume "has_room (free_edge_slots graph) (next_edge_index graph) (length (edges graph)) \<and>
      node_heap w src = Some sn \<and>
      has_room (free_out_edge_slots sn) (next_out_edge_index sn) (length (out_edges sn)) \<and>
      node_heap w tgt = Some tn \<and>
      has_room (free_in_edge_slots tn) (next_in_edge_index tn) (length (in_edges tn))"
    then show "\<exists>edge graph' w'.
         add_edge graph bidir (HeapLabel l) src tgt w = Inr ((edge, graph'), w') \<and>
         map_option label_e (edge_heap w' edge) = Some (HeapLabel l) \<and>
         map_option label_class_e (edge_heap w' edge) = Some c \<and>
         getEdgesByLabel graph' c = edge # getEdgesByLabel graph c \<and>
         edge \<in> set (getEdgesByLabel graph' c) \<and>
         Some edge \<in> set (edges graph') \<and>
         GetLabelClass_exceeds_maximum \<in> set (log_w w')"
      using part3 by blast
  qed
qed


text \<open>
  The amended statement at the graph of S1 and the label of six integers: the class
  returned by \<open>getLabelClass\<close> is \<open>INT_L\<close>; it is recorded in the new node and in the new
  edge, and both are at the head of its lists.
\<close>

theorem long_label_installed_witness:
  "getLabelClass six_label S1_world
     = Inr (INT_L, S1_world\<lparr>log_w := [GetLabelClass_exceeds_maximum]\<rparr>) \<and>
   (\<exists>node graph' w'.
      add_node S1_graph False six_label S1_world = Inr ((node, graph'), w') \<and>
      map_option label_n (node_heap w' node) = Some six_label \<and>
      map_option label_class_n (node_heap w' node) = Some INT_L \<and>
      getNodesByLabel graph' INT_L = node # getNodesByLabel S1_graph INT_L \<and>
      node \<in> set (getNodesByLabel graph' INT_L) \<and>
      Some node \<in> set (nodes graph') \<and>
      GetLabelClass_exceeds_maximum \<in> set (log_w w')) \<and>
   (\<exists>edge graph' w'.
      add_edge S1_graph False six_label 1 3 S1_world = Inr ((edge, graph'), w') \<and>
      map_option label_e (edge_heap w' edge) = Some six_label \<and>
      map_option label_class_e (edge_heap w' edge) = Some INT_L \<and>
      getEdgesByLabel graph' INT_L = edge # getEdgesByLabel S1_graph INT_L \<and>
      edge \<in> set (getEdgesByLabel graph' INT_L) \<and>
      Some edge \<in> set (edges graph') \<and>
      GetLabelClass_exceeds_maximum \<in> set (log_w w'))"
  using long_label_installed [where w = S1_world and graph = S1_graph and root = False
      and bidir = False
      and l = "\<lparr>mark = NONE,
        list_l = map Some [INTEGER_CONSTANT 1, INTEGER_CONSTANT 2, INTEGER_CONSTANT 3,
          INTEGER_CONSTANT 4, INTEGER_CONSTANT 5, INTEGER_CONSTANT 6],
        list_length = 6, has_list_variable = False\<rparr>"
      and atom = "INTEGER_CONSTANT 1"
      and rest = "map Some [INTEGER_CONSTANT 2, INTEGER_CONSTANT 3,
          INTEGER_CONSTANT 4, INTEGER_CONSTANT 5, INTEGER_CONSTANT 6]"
      and src = 1 and sn = "S1_node 1 False (Some 6) (Some 5)"
      and tgt = 3 and tn = "S1_node 3 False (Some 8) (Some 7)"]
  by (simp add: six_label_def label_of_def S1_defs has_room_def getLabelClass_def
      deref_label_def run)


end
